theory Spec2Isabelle
  imports Complex_Main "HOL-Library.Log_Nat"
begin

section \<open>JavaScript Number values\<close>

text \<open>
  Every \<^verbatim>\<open>number\<close> of the component is an IEEE 754 binary64 value.  A finite
  value is kept as the rational it denotes (\<open>Num 0\<close> is \<open>+0\<close>); the negative
  zero, the two infinities and NaN are separate constructors.
\<close>

datatype number = NaN | PosInf | NegInf | NegZero | Num rat

text \<open>Round to the nearest integer, ties to the even one.\<close>

definition rhe :: "rat \<Rightarrow> int" where
  "rhe x = (let f = \<lfloor>x\<rfloor>; d = x - of_int f
            in if d < 1 / 2 then f
               else if 1 / 2 < d then f + 1
               else if even f then f else f + 1)"

text \<open>The binary exponent \<open>\<lfloor>log\<^sub>2 \<bar>q\<bar>\<rfloor>\<close> of a non-zero rational.\<close>

definition binexp :: "rat \<Rightarrow> int" where
  "binexp q = (let (a, b) = quotient_of \<bar>q\<bar>; k = bitlen a - bitlen b
               in if 2 powi k \<le> \<bar>q\<bar> then k else k - 1)"

text \<open>
  The Number value for a real \<open>x\<close> (ECMAScript's conversion from a mathematical value):
  the nearest binary64 value, ties to the even significand, \<open>2 powi 1024\<close> replaced
  by the infinity, and a zero that comes from a negative \<open>x\<close> replaced by \<open>-0\<close>.
  The spacing of the doubles around \<open>x\<close> is \<open>2 powi e\<close>; the rounded magnitude \<open>r\<close>
  has reached \<open>2 powi 1024\<close> exactly when its binary exponent is at least 1024.
\<close>

definition Fnum :: "rat \<Rightarrow> number" where
  "Fnum x = (if x = 0 then Num 0
             else let e = max (binexp x - 52) (- 1074);
                      m = rhe (\<bar>x\<bar> / 2 powi e);
                      r = of_int m * 2 powi e
                  in if 1024 \<le> binexp r then (if 0 < x then PosInf else NegInf)
                     else if m = 0 then (if x < 0 then NegZero else Num 0)
                     else Num (if x < 0 then - r else r))"

fun sign_bit :: "number \<Rightarrow> bool" where
  "sign_bit NegInf = True"
| "sign_bit NegZero = True"
| "sign_bit (Num q) = (q < 0)"
| "sign_bit _ = False"

fun is_zero :: "number \<Rightarrow> bool" where
  "is_zero NegZero = True"
| "is_zero (Num q) = (q = 0)"
| "is_zero _ = False"

fun is_inf :: "number \<Rightarrow> bool" where
  "is_inf PosInf = True"
| "is_inf NegInf = True"
| "is_inf _ = False"

fun val :: "number \<Rightarrow> rat" where
  "val (Num q) = q"
| "val _ = 0"

definition signed_zero :: "bool \<Rightarrow> number" where
  "signed_zero neg = (if neg then NegZero else Num 0)"

definition signed_inf :: "bool \<Rightarrow> number" where
  "signed_inf neg = (if neg then NegInf else PosInf)"

fun js_neg :: "number \<Rightarrow> number" where
  "js_neg NaN = NaN"
| "js_neg PosInf = NegInf"
| "js_neg NegInf = PosInf"
| "js_neg NegZero = Num 0"
| "js_neg (Num q) = (if q = 0 then NegZero else Num (- q))"

text \<open>\<^verbatim>\<open>x + y\<close>, \<^verbatim>\<open>x - y\<close>, \<^verbatim>\<open>x * y\<close> and \<^verbatim>\<open>x / y\<close> on Numbers.\<close>

definition js_add :: "number \<Rightarrow> number \<Rightarrow> number" where
  "js_add x y =
     (if x = NaN \<or> y = NaN then NaN
      else if x = PosInf \<and> y = NegInf then NaN
      else if x = NegInf \<and> y = PosInf then NaN
      else if is_inf x then x
      else if is_inf y then y
      else if x = NegZero \<and> y = NegZero then NegZero
      else Fnum (val x + val y))"

definition js_sub :: "number \<Rightarrow> number \<Rightarrow> number" where
  "js_sub x y = js_add x (js_neg y)"

definition js_mul :: "number \<Rightarrow> number \<Rightarrow> number" where
  "js_mul x y =
     (if x = NaN \<or> y = NaN then NaN
      else if is_inf x \<or> is_inf y then
        (if is_zero x \<or> is_zero y then NaN else signed_inf (sign_bit x \<noteq> sign_bit y))
      else if is_zero x \<or> is_zero y then signed_zero (sign_bit x \<noteq> sign_bit y)
      else Fnum (val x * val y))"

definition js_div :: "number \<Rightarrow> number \<Rightarrow> number" where
  "js_div x y =
     (if x = NaN \<or> y = NaN then NaN
      else if is_inf x then
        (if is_inf y then NaN else signed_inf (sign_bit x \<noteq> sign_bit y))
      else if is_inf y then signed_zero (sign_bit x \<noteq> sign_bit y)
      else if is_zero y then
        (if is_zero x then NaN else signed_inf (sign_bit x \<noteq> sign_bit y))
      else if is_zero x then signed_zero (sign_bit x \<noteq> sign_bit y)
      else Fnum (val x / val y))"

text \<open>
  The comparison \<^verbatim>\<open>x < y\<close> of the language is three-valued: \<open>None\<close> is the
  \<^verbatim>\<open>undefined\<close> that a NaN operand gives.
\<close>

definition js_lessThan :: "number \<Rightarrow> number \<Rightarrow> bool option" where
  "js_lessThan x y =
     (if x = NaN \<or> y = NaN then None
      else if x = y then Some False
      else if is_zero x \<and> is_zero y then Some False
      else if x = PosInf then Some False
      else if y = PosInf then Some True
      else if y = NegInf then Some False
      else if x = NegInf then Some True
      else Some (val x < val y))"

text \<open>\<^verbatim>\<open>x <= y\<close> is true when \<^verbatim>\<open>y < x\<close> is false (not when it is undefined).\<close>

definition js_le :: "number \<Rightarrow> number \<Rightarrow> bool" where
  "js_le x y = (js_lessThan y x = Some False)"

text \<open>\<^verbatim>\<open>x > y\<close> is true when \<^verbatim>\<open>y < x\<close> is true.\<close>

definition js_gt :: "number \<Rightarrow> number \<Rightarrow> bool" where
  "js_gt x y = (js_lessThan y x = Some True)"

text \<open>\<^verbatim>\<open>Math.max\<close>: NaN if an argument is NaN, and \<open>+0\<close> is larger than \<open>-0\<close>.\<close>

definition math_max :: "number list \<Rightarrow> number" where
  "math_max coerced =
     (if NaN \<in> set coerced then NaN
      else foldl (\<lambda>highest n.
             if n = Num 0 \<and> highest = NegZero then Num 0
             else if js_gt n highest then n else highest) NegInf coerced)"

text \<open>
  \<^verbatim>\<open>Math.round\<close>: the nearest integer, the one closer to \<open>+\<infinity>\<close> at a tie; a
  negative argument not below \<open>-0.5\<close> gives \<open>-0\<close>.
\<close>

fun math_round :: "number \<Rightarrow> number" where
  "math_round (Num q) =
     (if q < 0 \<and> - (1 / 2) \<le> q then NegZero else Num (of_int \<lfloor>q + 1 / 2\<rfloor>))"
| "math_round n = n"

text \<open>Truthiness of a Number: \<open>+0\<close>, \<open>-0\<close> and NaN are falsy.\<close>

fun to_boolean :: "number \<Rightarrow> bool" where
  "to_boolean NaN = False"
| "to_boolean NegZero = False"
| "to_boolean (Num q) = (q \<noteq> 0)"
| "to_boolean _ = True"

text \<open>
  \<^verbatim>\<open>x || 0\<close> for a property read \<open>x\<close> that may be \<^verbatim>\<open>undefined\<close> (\<open>None\<close>).
\<close>

fun or_zero :: "number option \<Rightarrow> number" where
  "or_zero None = Num 0"
| "or_zero (Some x) = (if to_boolean x then x else Num 0)"

section \<open>The prototype's state\<close>

datatype network = Demo | Eth | Sol

record wallet =
  address :: string
  network :: network

text \<open>
  \<^verbatim>\<open>Omit<Program, "id">\<close> is the record \<open>programSpec\<close>; a \<^verbatim>\<open>Program\<close> extends it
  with the field \<^verbatim>\<open>id\<close>.
\<close>

record programSpec =
  name :: string
  tokenSymbol :: string
  fixedCentsPerPoint :: number
  earnRatePct :: number
  breakagePct :: number

record program = programSpec +
  id' :: string

datatype rowType = ISSUE | REDEEM

record ledgerRow =
  ts :: nat
  type' :: rowType
  programId :: string
  amountPts :: number
  amountUsd :: number
  note' :: "string option"

definition DEMO_PROGRAMS :: "program list" where
  "DEMO_PROGRAMS =
     [\<lparr>name = ''Gotham Sports Rewards'', tokenSymbol = ''GOTH'', fixedCentsPerPoint = Num 100,
       earnRatePct = Num 5, breakagePct = Num 15, id' = ''p1''\<rparr>,
      \<lparr>name = ''Street Child Impact Cash'', tokenSymbol = ''IMPT'', fixedCentsPerPoint = Num 100,
       earnRatePct = Num 3, breakagePct = Num 0, id' = ''p2''\<rparr>,
      \<lparr>name = ''Kraken Club Cashback'', tokenSymbol = ''KRAK'', fixedCentsPerPoint = Num 100,
       earnRatePct = Num 4, breakagePct = Num 10, id' = ''p3''\<rparr>]"

text \<open>The state hooks of \<^verbatim>\<open>TokenLoyalty\<close> (the navigation flag apart).\<close>

record state =
  wallet :: "wallet option"
  programs :: "program list"
  selected :: string
  purchaseUsd :: number
  balances :: "string \<rightharpoonup> number"
  ledger :: "ledgerRow list"

definition initial :: state where
  "initial = \<lparr>wallet = None, programs = DEMO_PROGRAMS, selected = id' (hd DEMO_PROGRAMS),
     purchaseUsd = Num 120, balances = Map.empty, ledger = []\<rparr>"

subsection \<open>The values derived at each render\<close>

text \<open>
  \<^verbatim>\<open>programs.find(p => p.id === selected)!\<close> is \<^verbatim>\<open>undefined\<close> when no program has the
  selected id, and the next line reads a property of it: the render throws a TypeError.
\<close>

datatype error = TypeError

record view =
  activeProgram :: program
  activeBalance :: number
  earnValueUsd :: number
  ptsPerDollar :: number
  earnPts :: number

definition render :: "state \<Rightarrow> error + view" where
  "render s =
     (case List.find (\<lambda>p. id' p = selected s) (programs s) of
        None \<Rightarrow> Inl TypeError
      | Some p \<Rightarrow>
          let bal = or_zero (balances s (selected s));
              usd = js_div (js_mul (purchaseUsd s) (earnRatePct p)) (Num 100);
              ppd = js_div (Num 100) (fixedCentsPerPoint p);
              pts = js_div (math_round (js_mul (js_mul usd ppd) (Num 100))) (Num 100)
          in Inr \<lparr>activeProgram = p, activeBalance = bal, earnValueUsd = usd,
                  ptsPerDollar = ppd, earnPts = pts\<rparr>)"

subsection \<open>The handlers\<close>

text \<open>
  A handler returns the alert it shows, if any, and the state after its setters.  What
  the environment supplies is a parameter: the clock \<open>now\<close> of \<^verbatim>\<open>Date.now()\<close>, the
  currency formatter \<open>fmt\<close>, and the strings \<^verbatim>\<open>Math.random().toString(radix)\<close>.
\<close>

definition mockConnect :: "network \<Rightarrow> string \<Rightarrow> string \<Rightarrow> state \<Rightarrow> state" where
  "mockConnect n rnd1 rnd2 s =
     (let addr = (if n = Sol then ''SoL'' else if n = Eth then ''0x'' else ''demo'')
                 @ take 8 (drop 2 rnd1) @ take 4 (drop 2 rnd2)
      in s\<lparr>wallet := Some \<lparr>address = addr, network = n\<rparr>\<rparr>)"

definition issuePoints :: "nat \<Rightarrow> (number \<Rightarrow> string) \<Rightarrow> state \<Rightarrow> view \<Rightarrow> string option \<times> state" where
  "issuePoints now fmt s v =
     (if wallet s = None then (Some ''Connect a wallet first (mock).'', s)
      else if js_le (purchaseUsd s) (Num 0) then (Some ''Enter a purchase amount > 0.'', s)
      else
        let next = balances s;
            next = next(selected s \<mapsto> js_add (or_zero (next (selected s))) (earnPts v))
        in (None, s\<lparr>balances := next,
                     ledger := \<lparr>ts = now, type' = ISSUE, programId = selected s,
                                 amountPts = earnPts v, amountUsd = earnValueUsd v,
                                 note' = Some (''Purchase '' @ fmt (purchaseUsd s))\<rparr> # ledger s\<rparr>))"

definition redeem :: "nat \<Rightarrow> state \<Rightarrow> view \<Rightarrow> number \<Rightarrow> string option \<times> state" where
  "redeem now s v amount =
     (if wallet s = None then (Some ''Connect a wallet first (mock).'', s)
      else if js_le amount (Num 0) then (Some ''Enter a positive amount.'', s)
      else if js_gt amount (activeBalance v) then (Some ''Not enough balance.'', s)
      else
        let usd = js_div amount (ptsPerDollar v);
            next = balances s;
            next = next(selected s \<mapsto> js_sub (activeBalance v) amount)
        in (None, s\<lparr>balances := next,
                     ledger := \<lparr>ts = now, type' = REDEEM, programId = selected s,
                                 amountPts = amount, amountUsd = usd,
                                 note' = Some ''Checkout (gift card / bill credit)''\<rparr> # ledger s\<rparr>))"

text \<open>\<open>rnd\<close> is the string \<^verbatim>\<open>Math.random().toString(36)\<close>; \<^verbatim>\<open>slice(2, 7)\<close> keeps five
  characters after the first two.\<close>

definition addProgram :: "string \<Rightarrow> state \<Rightarrow> programSpec \<Rightarrow> state" where
  "addProgram rnd s p =
     (let i = ''p'' @ take 5 (drop 2 rnd)
      in s\<lparr>programs := \<lparr>name = name p, tokenSymbol = tokenSymbol p,
                          fixedCentsPerPoint = fixedCentsPerPoint p,
                          earnRatePct = earnRatePct p, breakagePct = breakagePct p,
                          id' = i\<rparr> # programs s,
           selected := i\<rparr>)"

definition resetAll :: "state \<Rightarrow> state" where
  "resetAll s = s\<lparr>balances := Map.empty, ledger := [], programs := DEMO_PROGRAMS,
                  selected := id' (hd DEMO_PROGRAMS), wallet := None\<rparr>"

text \<open>
  The five state hooks of \<^verbatim>\<open>ProgramForm\<close> (name, symbol, value, earn, breakage) and the
  click handler of its button, which calls \<^verbatim>\<open>onCreate = addProgram\<close>.
\<close>

type_synonym form = "string \<times> string \<times> number \<times> number \<times> number"

definition createClick :: "string \<Rightarrow> form \<Rightarrow> state \<Rightarrow> string option \<times> form \<times> state" where
  "createClick rnd f s =
     (case f of (nm, symbol, value, earn, breakage) \<Rightarrow>
        if nm = [] \<or> symbol = [] then (Some ''Name & symbol required'', f, s)
        else (None, ([], [], Num 100, Num 5, Num 10),
              addProgram rnd s
                \<lparr>name = nm, tokenSymbol = symbol,
                 fixedCentsPerPoint = math_max [Num 1, value],
                 earnRatePct = math_max [Num 0, earn],
                 breakagePct = math_max [Num 0, breakage]\<rparr>))"

subsection \<open>Sequences of user actions\<close>

text \<open>
  An action the page does not offer in a state (a button that is not rendered, an id that
  is not an option of the selector, any action after a render that threw) has no successor.
\<close>

datatype event =
    Connect network string string
  | Disconnect
  | Select string
  | SetPurchase number
  | Issue nat
  | Redeem nat number
  | Create string form
  | Reset

fun step :: "(number \<Rightarrow> string) \<Rightarrow> state \<Rightarrow> event \<Rightarrow> state option" where
  "step fmt s ev =
     (case render s of
        Inl e \<Rightarrow> None
      | Inr v \<Rightarrow>
          (case ev of
             Connect n r1 r2 \<Rightarrow> if wallet s = None then Some (mockConnect n r1 r2 s) else None
           | Disconnect \<Rightarrow> if wallet s = None then None else Some (s\<lparr>wallet := None\<rparr>)
           | Select i \<Rightarrow> if i \<in> set (map id' (programs s)) then Some (s\<lparr>selected := i\<rparr>) else None
           | SetPurchase x \<Rightarrow> Some (s\<lparr>purchaseUsd := or_zero (Some x)\<rparr>)
           | Issue now \<Rightarrow> Some (snd (issuePoints now fmt s v))
           | Redeem now amount \<Rightarrow> Some (snd (redeem now s v amount))
           | Create rnd f \<Rightarrow> Some (snd (snd (createClick rnd f s)))
           | Reset \<Rightarrow> Some (resetAll s)))"

fun run :: "(number \<Rightarrow> string) \<Rightarrow> state \<Rightarrow> event list \<Rightarrow> state option" where
  "run fmt s [] = Some s"
| "run fmt s (ev # evs) = (case step fmt s ev of None \<Rightarrow> None | Some s' \<Rightarrow> run fmt s' evs)"

subsection \<open>Magnitude and relative error\<close>

text \<open>
  Predicates for stating how far a computed double is from the exact result: the value is
  a finite Number; the magnitude of a rational lies between two powers of two; and \<open>z\<close>
  is within the relative error \<open>2\<^sup>-\<^sup>5\<^sup>3\<close> (half a unit in the last place of a normal
  double) of \<open>x\<close>.
\<close>

fun is_fin :: "number \<Rightarrow> bool" where
  "is_fin (Num q) = True"
| "is_fin NegZero = True"
| "is_fin _ = False"

definition rng :: "int \<Rightarrow> int \<Rightarrow> rat \<Rightarrow> bool" where
  "rng lo hi x \<longleftrightarrow> 2 powi lo \<le> \<bar>x\<bar> \<and> \<bar>x\<bar> \<le> 2 powi hi"

definition near :: "rat \<Rightarrow> rat \<Rightarrow> bool" where
  "near x z \<longleftrightarrow> \<bar>z - x\<bar> \<le> \<bar>x\<bar> / 2 ^ 53"

text \<open>
  \<open>z\<close> is within half a unit in the last place of \<open>x\<close>: within the relative error
  \<open>2\<^sup>-\<^sup>5\<^sup>3\<close>, or, where \<open>x\<close> is in the subnormal range, within half the spacing
  \<open>2\<^sup>-\<^sup>1\<^sup>0\<^sup>7\<^sup>4\<close> of the subnormal doubles.
\<close>

definition close :: "rat \<Rightarrow> rat \<Rightarrow> bool" where
  "close x z \<longleftrightarrow> \<bar>z - x\<bar> \<le> \<bar>x\<bar> / 2 ^ 53 \<or> \<bar>z - x\<bar> \<le> 1 / 2 ^ 1075"

subsection \<open>Non-negative balances\<close>

text \<open>
  Numbers that are non-negative and not \<open>-0\<close>, numbers above zero, and finite Numbers
  that are doubles.  An action is \<open>plain\<close> when the numbers the user supplies with it are
  finite (for the purchase field NaN is harmless, the handler stores 0 for it) and the cents
  field of the form holds a double; \<open>balances_ok\<close> is the invariant that plain actions
  keep.
\<close>

fun nn :: "number \<Rightarrow> bool" where
  "nn PosInf = True"
| "nn (Num q) = (0 \<le> q)"
| "nn _ = False"

fun pos :: "number \<Rightarrow> bool" where
  "pos PosInf = True"
| "pos (Num q) = (0 < q)"
| "pos _ = False"

fun is_dbl :: "number \<Rightarrow> bool" where
  "is_dbl (Num q) = (Fnum q = Num q)"
| "is_dbl NegZero = True"
| "is_dbl _ = False"

fun plain :: "event \<Rightarrow> bool" where
  "plain (SetPurchase x) = (x \<noteq> PosInf \<and> x \<noteq> NegInf)"
| "plain (Redeem now amount) = is_fin amount"
| "plain (Create rnd (nm, symbol, value, earn, breakage)) = (is_dbl value \<and> is_fin earn)"
| "plain _ = True"

definition good_program :: "program \<Rightarrow> bool" where
  "good_program p \<longleftrightarrow> nn (earnRatePct p) \<and> is_fin (earnRatePct p)
     \<and> is_dbl (fixedCentsPerPoint p) \<and> js_le (Num 1) (fixedCentsPerPoint p)"

definition balances_ok :: "state \<Rightarrow> bool" where
  "balances_ok s \<longleftrightarrow> (\<forall>k b. balances s k = Some b \<longrightarrow> nn b)
     \<and> is_fin (purchaseUsd s) \<and> list_all good_program (programs s)"

subsection \<open>An example session\<close>

text \<open>The initial page after a click on the Demo wallet button, and what it renders.\<close>

definition demo_state :: state where
  "demo_state = mockConnect Demo ''0.8f3a91c2d4e'' ''0.b7e1f09'' initial"

definition demo_view :: view where
  "demo_view = \<lparr>activeProgram = hd DEMO_PROGRAMS, activeBalance = Num 0, earnValueUsd = Num 6,
     ptsPerDollar = Num 1, earnPts = Num 6\<rparr>"

text \<open>The same session after a click on the Issue button, and what it renders.\<close>

definition issued_state :: state where
  "issued_state = snd (issuePoints 1730000000000 (\<lambda>x. ''$120.00'') demo_state demo_view)"

definition issued_view :: view where
  "issued_view = demo_view\<lparr>activeBalance := Num 6\<rparr>"

text \<open>The session after the Issue click with 2 in the amount field, and what it renders
  beside the balance of 6: an earned value and earned points of 0.1, the double nearest to
  one tenth.\<close>

definition two_dollars :: state where
  "two_dollars = issued_state\<lparr>purchaseUsd := Num 2\<rparr>"

definition two_view :: view where
  "two_view = \<lparr>activeProgram = hd DEMO_PROGRAMS, activeBalance = Num 6,
     earnValueUsd = Num (3602879701896397 / 36028797018963968), ptsPerDollar = Num 1,
     earnPts = Num (3602879701896397 / 36028797018963968)\<rparr>"

text \<open>The connected page with 0.3 in the amount field (\<^verbatim>\<open>parseFloat("0.3")\<close> is the
  double nearest to three tenths), and what it renders: an earned value of 0.015 and earned
  points of 0.02, as doubles.\<close>

definition thirty_cents :: state where
  "thirty_cents = demo_state\<lparr>purchaseUsd := Fnum (3 / 10)\<rparr>"

definition thirty_view :: view where
  "thirty_view = \<lparr>activeProgram = hd DEMO_PROGRAMS, activeBalance = Num 0,
     earnValueUsd = Num (1080863910568919 / 72057594037927936), ptsPerDollar = Num 1,
     earnPts = Num (5764607523034235 / 288230376151711744)\<rparr>"

text \<open>A program definition as the form may submit it, and two draws of
  \<^verbatim>\<open>Math.random().toString(36)\<close> that agree on their first five digits.\<close>

definition acme :: form where
  "acme = (''Acme Rewards'', ''ACME'', Num 50, Num 2, Num 10)"

definition draw1 :: string where
  "draw1 = ''0.k3f9x2a7c1m''"

definition draw2 :: string where
  "draw2 = ''0.k3f9xq80b5d''"

text \<open>A formatter result, and two sequences of clicks from the initial page; the second
  one creates a program whose cents field holds NaN (the form stores \<^verbatim>\<open>parseInt(".5", 10)\<close>
  for the input \<^verbatim>\<open>.5\<close>).\<close>

definition usd :: "number \<Rightarrow> string" where
  "usd x = ''$120.00''"

definition demo_events :: "event list" where
  "demo_events = [Connect Demo ''0.8f3a91c2d4e'' ''0.b7e1f09'', Issue 1730000000000,
     Create draw1 acme, Select ''p1'', Redeem 1730000060000 (Num 2)]"

definition nan_form :: form where
  "nan_form = (''Acme Rewards'', ''ACME'', NaN, Num 2, Num 10)"

definition nan_events :: "event list" where
  "nan_events = [Create draw1 nan_form, Connect Demo ''0.8f3a91c2d4e'' ''0.b7e1f09'',
     Issue 1730000000000]"

subsection \<open>Referential integrity\<close>

text \<open>The selected id and the program id of every ledger row name a listed program.\<close>

definition ref_ok :: "state \<Rightarrow> bool" where
  "ref_ok s \<longleftrightarrow> selected s \<in> set (map id' (programs s))
               \<and> list_all (\<lambda>r. programId r \<in> set (map id' (programs s))) (ledger s)"

section \<open>Facts about the Number model\<close>

subsection \<open>The binary exponent\<close>

lemma bitlen_powi_bounds:
  assumes "0 < x"
  shows "(2::rat) powi (bitlen x - 1) \<le> of_int x" "of_int x < (2::rat) powi (bitlen x)"
proof -
  from assms have b1: "1 \<le> bitlen x" by (auto simp: bitlen_alt_def)
  have lo: "2 ^ nat (bitlen x - 1) \<le> x" and hi: "x < 2 ^ nat (bitlen x)"
    using bitlen_bounds [OF assms] by auto
  have "(of_int (2 ^ nat (bitlen x - 1)) :: rat) \<le> of_int x"
    using lo by (simp only: of_int_le_iff)
  then show "(2::rat) powi (bitlen x - 1) \<le> of_int x"
    using b1 by (simp add: power_int_def)
  have "(of_int x :: rat) < of_int (2 ^ nat (bitlen x))"
    using hi by (simp only: of_int_less_iff)
  then show "of_int x < (2::rat) powi (bitlen x)"
    using b1 by (simp add: power_int_def)
qed

lemma binexp_bounds:
  assumes "q \<noteq> 0"
  shows "2 powi (binexp q) \<le> \<bar>q\<bar>" "\<bar>q\<bar> < 2 powi (binexp q + 1)"
proof -
  obtain a b where ab: "quotient_of \<bar>q\<bar> = (a, b)" by (cases "quotient_of \<bar>q\<bar>")
  then have b: "0 < b" and q: "\<bar>q\<bar> = of_int a / of_int b"
    using quotient_of_denom_pos quotient_of_div by blast+
  have "0 < \<bar>q\<bar>" using assms by simp
  with q b have a: "0 < a" by (simp add: zero_less_divide_iff)
  define k where "k = bitlen a - bitlen b"
  have be: "binexp q = (if 2 powi k \<le> \<bar>q\<bar> then k else k - 1)"
    by (simp add: binexp_def ab k_def)
  have ub: "\<bar>q\<bar> < 2 powi (k + 1)"
  proof -
    have "of_int a < (2::rat) powi (bitlen a)" using bitlen_powi_bounds [OF a] by simp
    moreover have "(2::rat) powi (bitlen b - 1) \<le> of_int b" using bitlen_powi_bounds [OF b] by simp
    moreover have "(0::rat) < 2 powi (bitlen b - 1)" by simp
    ultimately have "of_int a / of_int b < (2::rat) powi (bitlen a) / 2 powi (bitlen b - 1)"
      using a b by (intro frac_less) auto
    also have "\<dots> = 2 powi (k + 1)" by (simp add: k_def power_int_diff power_int_add)
    finally show ?thesis using q by simp
  qed
  have lb: "2 powi (k - 1) \<le> \<bar>q\<bar>"
  proof -
    have "of_int b < (2::rat) powi (bitlen b)" using bitlen_powi_bounds [OF b] by simp
    moreover have "(2::rat) powi (bitlen a - 1) \<le> of_int a" using bitlen_powi_bounds [OF a] by simp
    ultimately have "(2::rat) powi (bitlen a - 1) / 2 powi (bitlen b) \<le> of_int a / of_int b"
      using a b by (intro frac_le) auto
    moreover have "(2::rat) powi (bitlen a - 1) / 2 powi (bitlen b) = 2 powi (k - 1)"
      by (simp add: k_def power_int_diff power_int_add)
    ultimately show ?thesis using q by simp
  qed
  show "2 powi (binexp q) \<le> \<bar>q\<bar>" using be lb by auto
  show "\<bar>q\<bar> < 2 powi (binexp q + 1)" using be ub by (auto simp: not_le)
qed

lemma pow2_less_iff: "(2::rat) powi m < 2 powi n \<longleftrightarrow> m < n"
proof
  assume l: "(2::rat) powi m < 2 powi n"
  show "m < n"
  proof (rule ccontr)
    assume "\<not> m < n"
    then have "(2::rat) powi n \<le> 2 powi m" by (intro power_int_increasing) auto
    with l show False by simp
  qed
next
  assume "m < n"
  then show "(2::rat) powi m < 2 powi n" by (intro power_int_strict_increasing) auto
qed

lemma pow2_le_iff: "(2::rat) powi m \<le> 2 powi n \<longleftrightarrow> m \<le> n"
  using pow2_less_iff [of n m] by (auto simp: not_less [symmetric])

lemma binexp_unique:
  assumes "2 powi k \<le> \<bar>q\<bar>" "\<bar>q\<bar> < 2 powi (k + 1)"
  shows "binexp q = k"
proof -
  have "0 < (2::rat) powi k" by simp
  with assms(1) have "0 < \<bar>q\<bar>" by linarith
  then have q0: "q \<noteq> 0" by simp
  have "(2::rat) powi (binexp q) < 2 powi (k + 1)"
    using binexp_bounds(1) [OF q0] assms(2) by simp
  then have 1: "binexp q < k + 1" by (simp only: pow2_less_iff)
  have "(2::rat) powi k < 2 powi (binexp q + 1)"
    using binexp_bounds(2) [OF q0] assms(1) by simp
  then have 2: "k < binexp q + 1" by (simp only: pow2_less_iff)
  from 1 2 show ?thesis by simp
qed

subsection \<open>Doubles are fixed points of the conversion\<close>

lemma rhe_of_int [simp]: "rhe (of_int n) = n"
  by (simp add: rhe_def)

lemma rhe_le: "x \<le> of_int n \<Longrightarrow> rhe x \<le> n"
proof -
  assume xn: "x \<le> of_int n"
  show ?thesis
  proof (cases "x = of_int n")
    case True
    then show ?thesis by simp
  next
    case False
    with xn have "x < of_int n" by simp
    then have "\<lfloor>x\<rfloor> < n" by (simp add: floor_less_iff)
    then show ?thesis by (simp add: rhe_def Let_def)
  qed
qed

lemma rhe_nonneg: "0 \<le> x \<Longrightarrow> 0 \<le> rhe x"
  by (simp add: rhe_def Let_def) 

lemma binexp_minus [simp]: "binexp (- q) = binexp q"
  by (simp add: binexp_def)

lemma binexp_less:
  assumes "0 < q" "q < 2 powi n"
  shows "binexp q < n"
proof -
  have "2 powi (binexp q) \<le> \<bar>q\<bar>" using binexp_bounds(1) [of q] assms by simp
  with assms have "(2::rat) powi (binexp q) < 2 powi n" by simp
  then show ?thesis by (simp only: pow2_less_iff)
qed

lemma Fnum_exact:
  assumes m: "0 < m" "m < 2 ^ 53" and e: "- 1074 \<le> e"
    and q: "q = of_int m * 2 powi e" and lt: "q < 2 powi 1024"
  shows "Fnum q = Num q" and "Fnum (- q) = Num (- q)"
proof -
  have qpos: "0 < q" using m q by simp
  define e' where "e' = max (binexp q - 52) (- 1074)"
  have "q < 2 ^ 53 * 2 powi e"
  proof -
    have "(of_int m :: rat) < of_int (2 ^ 53)" using m(2) by (simp only: of_int_less_iff)
    then show ?thesis unfolding q by (intro mult_strict_right_mono) auto
  qed
  also have "\<dots> = 2 powi (e + 53)" by (simp add: power_int_add)
  finally have "binexp q < e + 53" using qpos by (intro binexp_less) auto
  with e have le: "e' \<le> e" by (simp add: e'_def)
  define d where "d = nat (e - e')"
  define M where "M = m * 2 ^ d"
  have ee: "e = e' + int d" using le by (simp add: d_def)
  have "q / 2 powi e' = of_int M"
    by (simp add: q ee power_int_add M_def)
  then have rh: "rhe (q / 2 powi e') = M" by (simp only: rhe_of_int)
  have r: "rat_of_int M * 2 powi e' = q"
    by (simp add: q ee power_int_add M_def)
  have nov: "\<not> 1024 \<le> binexp q" using binexp_less [OF qpos lt] by simp
  have m0: "M \<noteq> 0" using m by (simp add: M_def)
  show "Fnum q = Num q"
    using qpos nov m0
    by (simp add: Fnum_def Let_def e'_def [symmetric] rh r)
  show "Fnum (- q) = Num (- q)"
    using qpos nov m0
    by (simp add: Fnum_def Let_def e'_def [symmetric] rh r)
qed

lemma Fnum_idem:
  assumes "Fnum x = Num r"
  shows "Fnum r = Num r"
proof (cases "x = 0")
  case True
  with assms show ?thesis by (simp add: Fnum_def)
next
  case x0: False
  define e where "e = max (binexp x - 52) (- 1074)"
  define m where "m = rhe (\<bar>x\<bar> / 2 powi e)"
  define R where "R = rat_of_int m * 2 powi e"
  have F: "Fnum x = (if 1024 \<le> binexp R then (if 0 < x then PosInf else NegInf)
                     else if m = 0 then (if x < 0 then NegZero else Num 0)
                     else Num (if x < 0 then - R else R))"
    using x0 by (simp add: Fnum_def Let_def e_def m_def R_def)
  have m0: "0 \<le> m" unfolding m_def by (intro rhe_nonneg) simp
  have mle: "m \<le> 2 ^ 53"
  proof -
    have "\<bar>x\<bar> < 2 powi (binexp x + 1)" using binexp_bounds(2) [OF x0] .
    also have "\<dots> \<le> 2 powi (e + 53)" by (simp only: pow2_le_iff) (simp add: e_def)
    also have "\<dots> = 2 ^ 53 * 2 powi e" by (simp add: power_int_add)
    finally have "\<bar>x\<bar> / 2 powi e < 2 ^ 53" by (simp add: divide_less_eq)
    then have "\<bar>x\<bar> / 2 powi e \<le> of_int (2 ^ 53)" by simp
    then show ?thesis unfolding m_def by (rule rhe_le)
  qed
  show ?thesis
  proof (cases "m = 0")
    case True
    with assms F have "r = 0" by (simp add: R_def split: if_splits)
    then show ?thesis by (simp add: Fnum_def)
  next
    case False
    with m0 have mpos: "0 < m" by simp
    then have Rpos: "0 < R" by (simp add: R_def)
    from assms F False have nov: "binexp R < 1024" and rR: "r = (if x < 0 then - R else R)"
      by (auto split: if_splits)
    have "\<bar>R\<bar> < 2 powi (binexp R + 1)" using binexp_bounds(2) [of R] Rpos by simp
    also have "\<dots> \<le> 2 powi 1024" using nov by (simp only: pow2_le_iff)
    finally have Rlt: "R < 2 powi 1024" using Rpos by simp
    have "Fnum R = Num R \<and> Fnum (- R) = Num (- R)"
    proof (cases "m = 2 ^ 53")
      case True
      have "R = of_int (2 ^ 52) * 2 powi (e + 1)" by (simp add: R_def True power_int_add)
      moreover have "- 1074 \<le> e + 1" by (simp add: e_def)
      ultimately show ?thesis using Rlt Fnum_exact [of "2 ^ 52" "e + 1" R] by simp
    next
      case False
      with mle have "m < 2 ^ 53" by simp
      moreover have "- 1074 \<le> e" by (simp add: e_def)
      ultimately show ?thesis using mpos Rlt Fnum_exact [of m e R] by (simp add: R_def)
    qed
    then show ?thesis by (simp add: rR)
  qed
qed

subsection \<open>The rounding error of a normal result\<close>

lemma rhe_err: "\<bar>of_int (rhe q) - q\<bar> \<le> 1 / 2"
proof -
  have "of_int \<lfloor>q\<rfloor> \<le> q" "q < of_int \<lfloor>q\<rfloor> + 1" by linarith+
  then show ?thesis by (auto simp: rhe_def Let_def abs_le_iff)
qed

lemma rhe_ge: "of_int n \<le> x \<Longrightarrow> n \<le> rhe x"
proof -
  assume "of_int n \<le> x"
  then have "n \<le> \<lfloor>x\<rfloor>" by (simp add: le_floor_iff)
  then show ?thesis by (simp add: rhe_def Let_def)
qed

lemma binexp_ge: "2 powi k \<le> \<bar>q\<bar> \<Longrightarrow> k \<le> binexp q"
proof -
  assume a: "2 powi k \<le> \<bar>q\<bar>"
  have "0 < (2::rat) powi k" by simp
  with a have "0 < \<bar>q\<bar>" by linarith
  then have "q \<noteq> 0" by simp
  from binexp_bounds(2) [OF this] a have "(2::rat) powi k < 2 powi (binexp q + 1)" by simp
  then show ?thesis by (simp only: pow2_less_iff)
qed

lemma Fnum_rel:
  assumes lo: "2 powi (- 1022) \<le> \<bar>x\<bar>" and hi: "\<bar>x\<bar> < 2 powi 1023"
  shows "\<exists>z. Fnum x = Num z \<and> \<bar>z - x\<bar> \<le> \<bar>x\<bar> / 2 ^ 53"
proof -
  have "0 < (2::rat) powi (- 1022)" by (rule zero_less_power_int) simp
  with lo have xpos: "0 < \<bar>x\<bar>" by linarith
  then have x0: "x \<noteq> 0" by simp
  define k where "k = binexp x"
  have k1: "- 1022 \<le> k" unfolding k_def using lo by (rule binexp_ge)
  have k2: "k < 1023" unfolding k_def using xpos hi binexp_less [of "\<bar>x\<bar>" 1023]
    by (simp add: binexp_def)
  define e where "e = k - 52"
  have e: "max (binexp x - 52) (- 1074) = e" using k1 by (simp add: e_def k_def)
  define q where "q = \<bar>x\<bar> / 2 powi e"
  define m where "m = rhe q"
  define R where "R = rat_of_int m * 2 powi e"
  have pe: "0 < (2::rat) powi e" by (rule zero_less_power_int) simp
  have kb: "2 powi k \<le> \<bar>x\<bar>" "\<bar>x\<bar> < 2 powi (k + 1)"
    using binexp_bounds [OF x0] by (simp_all add: k_def)
  have "(2::rat) powi k = 2 ^ 52 * 2 powi e" by (simp add: e_def power_int_diff)
  with kb(1) have q1: "of_int (2 ^ 52) \<le> q" using pe by (simp add: q_def le_divide_eq)
  have "(2::rat) powi (k + 1) = 2 ^ 53 * 2 powi e" by (simp add: e_def power_int_diff power_int_add)
  with kb(2) have q2: "q \<le> of_int (2 ^ 53)" using pe by (simp add: q_def divide_le_eq)
  have m1: "2 ^ 52 \<le> m" unfolding m_def using q1 by (rule rhe_ge)
  have m2: "m \<le> 2 ^ 53" unfolding m_def using q2 by (rule rhe_le)
  from m1 have mpos: "0 < m" by simp
  then have Rpos: "0 < R" using pe by (simp add: R_def)
  have "rat_of_int m \<le> of_int (2 ^ 53)" using m2 by (simp only: of_int_le_iff)
  then have "R \<le> of_int (2 ^ 53) * 2 powi e"
    unfolding R_def using pe by (intro mult_right_mono) simp_all
  also have "\<dots> = 2 powi (k + 1)" by (simp add: e_def power_int_diff power_int_add)
  also have "\<dots> < 2 powi 1024" using k2 by (simp only: pow2_less_iff)
  finally have "binexp R < 1024" using Rpos by (intro binexp_less)
  then have nov: "\<not> 1024 \<le> binexp R" by simp
  have "Fnum x = (if 1024 \<le> binexp R then (if 0 < x then PosInf else NegInf)
                  else if m = 0 then (if x < 0 then NegZero else Num 0)
                  else Num (if x < 0 then - R else R))"
    unfolding R_def m_def q_def Fnum_def Let_def e by (simp only: x0 if_False)
  then have F: "Fnum x = Num (if x < 0 then - R else R)"
    using nov mpos by simp
  have "\<bar>R - \<bar>x\<bar>\<bar> = \<bar>of_int m - q\<bar> * 2 powi e"
  proof -
    have "R - \<bar>x\<bar> = (of_int m - q) * 2 powi e" using pe by (simp add: R_def q_def field_simps)
    then show ?thesis using pe by (simp add: abs_mult)
  qed
  also have "\<dots> \<le> 1 / 2 * 2 powi e"
    using rhe_err [of q] pe unfolding m_def by (intro mult_right_mono) simp_all
  also have "\<dots> = 2 powi k / 2 ^ 53" by (simp add: e_def power_int_diff)
  also have "\<dots> \<le> \<bar>x\<bar> / 2 ^ 53" using kb(1) by (simp add: divide_right_mono)
  finally have err: "\<bar>R - \<bar>x\<bar>\<bar> \<le> \<bar>x\<bar> / 2 ^ 53" .
  have "\<bar>(if x < 0 then - R else R) - x\<bar> = \<bar>R - \<bar>x\<bar>\<bar>" by (auto simp: abs_if)
  with err F show ?thesis by auto
qed

subsection \<open>Overflow, sign and size of a rounded value\<close>

lemma binexp_overflow: "0 < r \<Longrightarrow> (1024 \<le> binexp r) = (2 powi 1024 \<le> r)"
proof
  assume r: "0 < r" and "1024 \<le> binexp r"
  then have "(2::rat) powi 1024 \<le> 2 powi binexp r" by (simp only: pow2_le_iff)
  also have "\<dots> \<le> \<bar>r\<bar>" using binexp_bounds(1) [of r] r by simp
  finally show "2 powi 1024 \<le> r" using r by simp
next
  assume r: "0 < r" and "2 powi 1024 \<le> r"
  then have "2 powi 1024 \<le> \<bar>r\<bar>" by simp
  then show "1024 \<le> binexp r" by (rule binexp_ge)
qed

lemma Fnum_cases:
  assumes "x \<noteq> 0"
  obtains m e where "0 \<le> m" "rhe (\<bar>x\<bar> / 2 powi e) = m" "e = max (binexp x - 52) (- 1074)"
    "Fnum x = (if 1024 \<le> binexp (of_int m * 2 powi e) then (if 0 < x then PosInf else NegInf)
               else if m = 0 then (if x < 0 then NegZero else Num 0)
               else Num (if x < 0 then - (of_int m * 2 powi e) else of_int m * 2 powi e))"
proof -
  define e where "e = max (binexp x - 52) (- 1074)"
  define m where "m = rhe (\<bar>x\<bar> / 2 powi e)"
  have "0 \<le> m" unfolding m_def by (intro rhe_nonneg) simp
  moreover have "Fnum x = (if 1024 \<le> binexp (of_int m * 2 powi e) then (if 0 < x then PosInf else NegInf)
               else if m = 0 then (if x < 0 then NegZero else Num 0)
               else Num (if x < 0 then - (of_int m * 2 powi e) else of_int m * 2 powi e))"
    unfolding m_def e_def Fnum_def Let_def by (simp only: assms if_False)
  ultimately show ?thesis using that [of m e] by (simp add: m_def e_def)
qed

lemma Fnum_nn: "0 \<le> x \<Longrightarrow> nn (Fnum x)"
proof (cases "x = 0")
  case True
  then show ?thesis by (simp add: Fnum_def)
next
  case False
  assume "0 \<le> x"
  with False have xp: "0 < x" by simp
  obtain m e where me: "0 \<le> m" "rhe (\<bar>x\<bar> / 2 powi e) = m"
    "e = max (binexp x - 52) (- 1074)"
    "Fnum x = (if 1024 \<le> binexp (of_int m * 2 powi e) then (if 0 < x then PosInf else NegInf)
               else if m = 0 then (if x < 0 then NegZero else Num 0)
               else Num (if x < 0 then - (of_int m * 2 powi e) else of_int m * 2 powi e))"
    by (rule Fnum_cases [OF False])
  have "0 \<le> rat_of_int m * 2 powi e" using me(1) by simp
  then show ?thesis using xp by (simp add: me(4))
qed

lemma Fnum_pos:
  assumes "2 powi (- 1074) \<le> x"
  shows "pos (Fnum x)"
proof -
  have "0 < (2::rat) powi (- 1074)" by (rule zero_less_power_int) simp
  with assms have xp: "0 < x" by linarith
  then have x0: "x \<noteq> 0" by simp
  obtain m e where me0: "0 \<le> m" and me: "rhe (\<bar>x\<bar> / 2 powi e) = m"
    "e = max (binexp x - 52) (- 1074)"
    "Fnum x = (if 1024 \<le> binexp (of_int m * 2 powi e) then (if 0 < x then PosInf else NegInf)
               else if m = 0 then (if x < 0 then NegZero else Num 0)
               else Num (if x < 0 then - (of_int m * 2 powi e) else of_int m * 2 powi e))"
    by (rule Fnum_cases [OF x0])
  have pe: "0 < (2::rat) powi e" by (rule zero_less_power_int) simp
  have "2 powi e \<le> \<bar>x\<bar>"
  proof (cases "binexp x - 52 \<le> - 1074")
    case True
    then have "e = - 1074" using me(2) by simp
    then show ?thesis using assms xp by simp
  next
    case False
    then have "e = binexp x - 52" using me(2) by simp
    then have "(2::rat) powi e \<le> 2 powi binexp x" by (simp only: pow2_le_iff)
    also have "\<dots> \<le> \<bar>x\<bar>" using binexp_bounds(1) [OF x0] .
    finally show ?thesis .
  qed
  then have "of_int 1 \<le> \<bar>x\<bar> / 2 powi e" using pe by (simp add: le_divide_eq)
  then have "1 \<le> m" unfolding me(1) [symmetric] by (rule rhe_ge)
  then have "m \<noteq> 0" "0 < rat_of_int m * 2 powi e" using pe by simp_all
  then show ?thesis using xp by (simp add: me(3))
qed

lemma Fnum_bounded:
  assumes "Fnum x = Num z"
  shows "\<bar>z\<bar> < 2 powi 1024"
proof (cases "x = 0")
  case True
  with assms show ?thesis by (simp add: Fnum_def)
next
  case False
  obtain m e where me: "0 \<le> m" and me1: "rhe (\<bar>x\<bar> / 2 powi e) = m"
    "e = max (binexp x - 52) (- 1074)" and me2:
    "Fnum x = (if 1024 \<le> binexp (of_int m * 2 powi e) then (if 0 < x then PosInf else NegInf)
               else if m = 0 then (if x < 0 then NegZero else Num 0)
               else Num (if x < 0 then - (of_int m * 2 powi e) else of_int m * 2 powi e))"
    by (rule Fnum_cases [OF False])
  define R where "R = rat_of_int m * 2 powi e"
  have R0: "0 \<le> R" using me(1) by (simp add: R_def)
  from assms me2 R0 have nov: "\<not> 1024 \<le> binexp R" and z: "\<bar>z\<bar> = R \<or> z = 0"
    by (auto simp: R_def split: if_splits)
  show ?thesis
  proof (cases "R = 0")
    case True
    with z show ?thesis by auto
  next
    case False
    with R0 have "0 < R" by simp
    with nov binexp_overflow [of R] have "R < 2 powi 1024" by simp
    moreover have "(0::rat) < 2 powi 1024" by simp
    ultimately show ?thesis using z by auto
  qed
qed

lemma binexp_0: "binexp 0 = - 2"
  by code_simp

lemma Fnum_finite:
  assumes "\<bar>x\<bar> < 2 powi 1023"
  shows "Fnum x \<noteq> PosInf \<and> Fnum x \<noteq> NegInf"
proof (cases "x = 0")
  case True
  then show ?thesis by (simp add: Fnum_def)
next
  case False
  obtain m e where me: "0 \<le> m" "rhe (\<bar>x\<bar> / 2 powi e) = m"
    "e = max (binexp x - 52) (- 1074)"
    "Fnum x = (if 1024 \<le> binexp (of_int m * 2 powi e) then (if 0 < x then PosInf else NegInf)
               else if m = 0 then (if x < 0 then NegZero else Num 0)
               else Num (if x < 0 then - (of_int m * 2 powi e) else of_int m * 2 powi e))"
    by (rule Fnum_cases [OF False])
  define R where "R = rat_of_int m * 2 powi e"
  have pe: "0 < (2::rat) powi e" by (rule zero_less_power_int) simp
  have xp: "0 < \<bar>x\<bar>" using False by simp
  have "binexp x < 1023" using binexp_less [OF xp assms] by (simp add: binexp_def)
  then have "e \<le> 970" using me(3) by simp
  then have e970: "(2::rat) powi e \<le> 2 powi 970" by (simp only: pow2_le_iff)
  have "\<bar>rat_of_int m - \<bar>x\<bar> / 2 powi e\<bar> \<le> 1 / 2"
    using rhe_err [of "\<bar>x\<bar> / 2 powi e"] by (simp only: me(2))
  then have "rat_of_int m - \<bar>x\<bar> / 2 powi e \<le> 1 / 2" by linarith
  then have "(rat_of_int m - \<bar>x\<bar> / 2 powi e) * 2 powi e \<le> 1 / 2 * 2 powi e"
    using pe by (intro mult_right_mono) simp_all
  moreover have "(rat_of_int m - \<bar>x\<bar> / 2 powi e) * 2 powi e = R - \<bar>x\<bar>"
    using pe by (simp add: R_def left_diff_distrib)
  ultimately have "R - \<bar>x\<bar> \<le> 1 / 2 * 2 powi e" by simp
  then have "R < 2 powi 1023 + 1 / 2 * 2 powi 970" using assms e970 by linarith
  also have "\<dots> \<le> 2 powi 1024" by simp
  finally have lt: "R < 2 powi 1024" .
  have "\<not> 1024 \<le> binexp R"
  proof (cases "0 < R")
    case True
    with lt binexp_overflow [of R] show ?thesis by simp
  next
    case False
    moreover have "0 \<le> R" using me(1) by (simp add: R_def)
    ultimately have "R = 0" by simp
    then show ?thesis by (simp add: binexp_0)
  qed
  then show ?thesis by (simp add: me(4) R_def [symmetric])
qed

lemma Fnum_100: "Fnum 100 = Num 100"
  by code_simp

lemma Fnum_1: "Fnum 1 = Num 1"
  by code_simp

section \<open>Error bounds for the operations\<close>

subsection \<open>Magnitudes\<close>

lemma near_zero [simp]: "near 0 z \<longleftrightarrow> z = 0"
  by (simp add: near_def)

lemma near_delta:
  assumes "near x z"
  shows "\<exists>d. \<bar>d\<bar> \<le> 1 / 2 ^ 53 \<and> z = x * (1 + d)"
proof (cases "x = 0")
  case True
  with assms show ?thesis by (intro exI [of _ 0]) simp
next
  case False
  define d where "d = (z - x) / x"
  have "z = x * (1 + d)" using False by (simp add: d_def field_simps)
  moreover have "\<bar>d\<bar> \<le> 1 / 2 ^ 53"
  proof -
    have "\<bar>d\<bar> = \<bar>z - x\<bar> / \<bar>x\<bar>" by (simp add: d_def)
    also have "\<dots> \<le> (\<bar>x\<bar> / 2 ^ 53) / \<bar>x\<bar>"
      using assms by (intro divide_right_mono) (simp_all add: near_def)
    also have "\<dots> = 1 / 2 ^ 53" using False by simp
    finally show ?thesis .
  qed
  ultimately show ?thesis by blast
qed

lemma rng_mult: "rng a b x \<Longrightarrow> rng c d y \<Longrightarrow> rng (a + c) (b + d) (x * y)"
  unfolding rng_def by (auto simp: power_int_add abs_mult intro!: mult_mono)

lemma rng_nonzero: "rng a b x \<Longrightarrow> x \<noteq> 0"
proof -
  assume "rng a b x"
  then have "2 powi a \<le> \<bar>x\<bar>" by (simp add: rng_def)
  moreover have "0 < (2::rat) powi a" by simp
  ultimately have "0 < \<bar>x\<bar>" by linarith
  then show ?thesis by simp
qed

lemma rng_inverse: "rng c d y \<Longrightarrow> rng (- d) (- c) (inverse y)"
proof -
  assume r: "rng c d y"
  then have y0: "0 < \<bar>y\<bar>" using rng_nonzero by fastforce
  have p: "0 < (2::rat) powi c" "0 < (2::rat) powi d" by simp_all
  from r have "2 powi c \<le> \<bar>y\<bar>" "\<bar>y\<bar> \<le> 2 powi d" by (simp_all add: rng_def)
  then have "inverse \<bar>y\<bar> \<le> inverse (2 powi c)" "inverse (2 powi d) \<le> inverse \<bar>y\<bar>"
    using y0 p by (simp_all add: le_imp_inverse_le)
  then show ?thesis by (simp add: rng_def power_int_minus)
qed

lemma rng_div: "rng a b x \<Longrightarrow> rng c d y \<Longrightarrow> rng (a - d) (b - c) (x / y)"
  using rng_mult [of a b x "- d" "- c" "inverse y"] rng_inverse [of c d y]
  by (simp add: divide_inverse)

lemma rng_mono: "rng a b x \<Longrightarrow> a' \<le> a \<Longrightarrow> b \<le> b' \<Longrightarrow> rng a' b' x"
proof -
  assume r: "rng a b x" and l: "a' \<le> a" and h: "b \<le> b'"
  have "(2::rat) powi a' \<le> 2 powi a" using l by (simp only: pow2_le_iff)
  moreover have "(2::rat) powi b \<le> 2 powi b'" using h by (simp only: pow2_le_iff)
  ultimately show ?thesis using r unfolding rng_def by linarith
qed

lemma rng_near:
  assumes "rng a b x" and "near x z"
  shows "rng (a - 1) (b + 1) z"
proof -
  from near_delta [OF assms(2)] obtain d where d: "\<bar>d\<bar> \<le> 1 / 2 ^ 53" "z = x * (1 + d)"
    by blast
  have "\<bar>d\<bar> \<le> 1 / 2" using d(1) by simp
  then have "1 / 2 \<le> 1 + d" "1 + d \<le> 2" by (simp_all add: abs_le_iff)
  then have "1 / 2 \<le> \<bar>1 + d\<bar>" "\<bar>1 + d\<bar> \<le> 2" by linarith+
  then have "rng (- 1) 1 (1 + d)" by (simp add: rng_def power_int_minus)
  from rng_mult [OF assms(1) this] show ?thesis by (simp add: d(2))
qed

lemma Fnum_near:
  assumes "rng a b x" and "- 1022 \<le> a" and "b \<le> 1022"
  shows "\<exists>z. Fnum x = Num z \<and> near x z"
proof -
  from rng_mono [OF assms(1), of "- 1022" 1022] assms(2,3)
  have "rng (- 1022) 1022 x" by simp
  then have "2 powi (- 1022) \<le> \<bar>x\<bar>" "\<bar>x\<bar> \<le> 2 powi 1022" by (simp_all add: rng_def)
  moreover have "(2::rat) powi 1022 < 2 powi 1023" by (simp only: pow2_less_iff)
  ultimately have "2 powi (- 1022) \<le> \<bar>x\<bar>" "\<bar>x\<bar> < 2 powi 1023" by linarith+
  from Fnum_rel [OF this] show ?thesis by (simp add: near_def)
qed

lemma signed_zero_fin [simp]: "is_fin (signed_zero s)" "val (signed_zero s) = 0"
  by (simp_all add: signed_zero_def)

lemma fin_cases: "is_fin a \<Longrightarrow> a = NegZero \<or> a = Num (val a)"
  by (cases a) simp_all

lemma mul_near:
  assumes "is_fin a" and "is_fin b"
    and "val a * val b = 0 \<or> (rng lo hi (val a * val b) \<and> - 1022 \<le> lo \<and> hi \<le> 1022)"
  shows "is_fin (js_mul a b) \<and> near (val a * val b) (val (js_mul a b))"
proof (cases "is_zero a \<or> is_zero b")
  case True
  then have "js_mul a b = signed_zero (sign_bit a \<noteq> sign_bit b)"
    using assms(1,2) by (cases a; cases b) (simp_all add: js_mul_def)
  moreover have "val a * val b = 0" using True by (cases a; cases b) auto
  ultimately show ?thesis by (simp del: mult_eq_0_iff)
next
  case False
  then have nz: "val a * val b \<noteq> 0" using assms(1,2) by (cases a; cases b) auto
  have m: "js_mul a b = Fnum (val a * val b)"
    using False assms(1,2) by (cases a; cases b) (simp_all add: js_mul_def)
  from assms(3) nz have "rng lo hi (val a * val b)" "- 1022 \<le> lo" "hi \<le> 1022" by simp_all
  from Fnum_near [OF this] show ?thesis by (auto simp: m)
qed

lemma div_near:
  assumes "is_fin a" and "is_fin b" and "val b \<noteq> 0"
    and "val a = 0 \<or> (rng lo hi (val a / val b) \<and> - 1022 \<le> lo \<and> hi \<le> 1022)"
  shows "is_fin (js_div a b) \<and> near (val a / val b) (val (js_div a b))"
proof (cases "is_zero a")
  case True
  then have "js_div a b = signed_zero (sign_bit a \<noteq> sign_bit b)"
    using assms(1,2,3) by (cases a; cases b) (simp_all add: js_div_def)
  moreover have "val a / val b = 0" using True by (cases a) auto
  ultimately show ?thesis by (simp del: divide_eq_0_iff)
next
  case False
  then have nz: "val a \<noteq> 0" using assms(1) by (cases a) auto
  have m: "js_div a b = Fnum (val a / val b)"
    using False assms(1,2,3) by (cases a; cases b) (simp_all add: js_div_def)
  from assms(4) nz have "rng lo hi (val a / val b)" "- 1022 \<le> lo" "hi \<le> 1022" by simp_all
  from Fnum_near [OF this] show ?thesis by (auto simp: m)
qed

lemma round_near:
  assumes "is_fin a"
  shows "is_fin (math_round a) \<and> (\<exists>n::int. val (math_round a) = of_int n \<and> \<bar>of_int n - val a\<bar> \<le> 1 / 2)"
proof (cases a)
  case (Num q)
  have "of_int \<lfloor>q + 1 / 2\<rfloor> \<le> q + 1 / 2" "q + 1 / 2 < of_int \<lfloor>q + 1 / 2\<rfloor> + 1" by linarith+
  then have "- (1 / 2) \<le> of_int \<lfloor>q + 1 / 2\<rfloor> - q" "of_int \<lfloor>q + 1 / 2\<rfloor> - q \<le> 1 / 2"
    by linarith+
  then have e: "\<bar>of_int \<lfloor>q + 1 / 2\<rfloor> - q\<bar> \<le> 1 / 2" by (simp only: abs_le_iff) simp
  show ?thesis
  proof (cases "q < 0 \<and> - (1 / 2) \<le> q")
    case True
    then show ?thesis using Num by (auto intro!: exI [of _ 0] simp: abs_if)
  next
    case False
    then show ?thesis using Num e by auto
  qed
next
  case NegZero
  then show ?thesis by (auto intro!: exI [of _ 0])
qed (use assms in simp_all)

subsection \<open>From points back to dollars\<close>

lemma prod_err:
  fixes a b :: rat
  assumes "\<bar>a - 1\<bar> \<le> \<alpha>" and "\<bar>b - 1\<bar> \<le> \<beta>"
  shows "\<bar>a * b - 1\<bar> \<le> \<alpha> + \<beta> + \<alpha> * \<beta>"
proof -
  have e: "a * b - 1 = (a - 1) * (b - 1) + (a - 1) + (b - 1)" by (simp add: algebra_simps)
  have "0 \<le> \<alpha>" using assms(1) by linarith
  then have "\<bar>a - 1\<bar> * \<bar>b - 1\<bar> \<le> \<alpha> * \<beta>" using assms by (intro mult_mono) simp_all
  then have "\<bar>(a - 1) * (b - 1)\<bar> \<le> \<alpha> * \<beta>" by (simp add: abs_mult)
  with assms show ?thesis unfolding e by linarith
qed

lemma one_plus_err:
  fixes d1 d2 u :: rat
  assumes "\<bar>d1\<bar> \<le> u" and "\<bar>d2\<bar> \<le> u"
  shows "\<bar>(1 + d1) * (1 + d2) - 1\<bar> \<le> 2 * u + u * u"
  using prod_err [of "1 + d1" u "1 + d2" u] assms by simp

lemma round_trip_algebra:
  fixes V R T Y N P D :: rat
  assumes R: "0 < R"
    and T: "T = V * R * (1 + d1)" and Y: "Y = T * 100 * (1 + d2)"
    and N: "\<bar>N - Y\<bar> \<le> 1 / 2"
    and P: "P = N / 100 * (1 + d3)" and D: "D = P / R * (1 + d4)"
    and d: "\<bar>d1\<bar> \<le> u" "\<bar>d2\<bar> \<le> u" "\<bar>d3\<bar> \<le> u" "\<bar>d4\<bar> \<le> u"
  shows "\<bar>D - V\<bar> \<le> \<bar>V\<bar> * ((1 + u) ^ 4 - 1) + (1 + u) ^ 2 / (200 * R)"
proof -
  define a where "a = (1 + d1) * (1 + d2)"
  define b where "b = (1 + d3) * (1 + d4)"
  define w where "w = 2 * u + u * u"
  have u0: "0 \<le> u" using d(1) by linarith
  have a: "\<bar>a - 1\<bar> \<le> w" unfolding a_def w_def using d(1,2) by (rule one_plus_err)
  have b: "\<bar>b - 1\<bar> \<le> w" unfolding b_def w_def using d(3,4) by (rule one_plus_err)
  have ab: "\<bar>a * b - 1\<bar> \<le> w + w + w * w" using a b by (rule prod_err)
  have w4: "w + w + w * w = (1 + u) ^ 4 - 1" by (simp add: w_def power4_eq_xxxx algebra_simps)
  have w2: "1 + w = (1 + u) ^ 2" by (simp add: w_def power2_eq_square algebra_simps)
  have bb: "\<bar>b\<bar> \<le> (1 + u) ^ 2" using b w2 by linarith
  have eq: "D - V = V * (a * b - 1) + (N - Y) * b / (100 * R)"
    using R by (simp add: D P Y T a_def b_def field_simps)
  have t1: "\<bar>V * (a * b - 1)\<bar> \<le> \<bar>V\<bar> * ((1 + u) ^ 4 - 1)"
    using ab w4 by (simp add: abs_mult mult_left_mono)
  have "\<bar>(N - Y) * b\<bar> \<le> 1 / 2 * (1 + u) ^ 2"
    unfolding abs_mult using N bb by (intro mult_mono) simp_all
  then have "\<bar>(N - Y) * b\<bar> / (100 * R) \<le> (1 / 2 * (1 + u) ^ 2) / (100 * R)"
    using R by (intro divide_right_mono) simp_all
  then have t2: "\<bar>(N - Y) * b / (100 * R)\<bar> \<le> (1 + u) ^ 2 / (200 * R)"
    using R by (simp add: abs_mult)
  show ?thesis unfolding eq using t1 t2 by linarith
qed

lemma rng_100: "rng 6 7 100"
  by (simp add: rng_def)

lemma unit_roundoff_bounds:
  "(1 + 1 / 2 ^ 53) ^ 4 - 1 \<le> (1 / 2 ^ 50 :: rat)"
  "(1 + 1 / 2 ^ 53) ^ 2 \<le> (1 + 1 / 2 ^ 51) * (1 - 1 / 2 ^ 53 :: rat)"
  by (simp_all add: power_divide)

lemma round_trip_numbers:
  fixes C V :: rat
  assumes C: "1 \<le> C" "C \<le> 2 ^ 20"
    and V: "V = 0 \<or> (1 / 2 ^ 500 \<le> \<bar>V\<bar> \<and> \<bar>V\<bar> \<le> 2 ^ 500)"
    and r: "r = js_div (Num 100) (Num C)"
    and pts: "pts = js_div (math_round (js_mul (js_mul (Num V) r) (Num 100))) (Num 100)"
  shows "is_fin (js_div pts r)
       \<and> \<bar>val (js_div pts r) - V\<bar> \<le> 1 / 200 * (C / 100) * (1 + 1 / 2 ^ 51) + \<bar>V\<bar> / 2 ^ 50"
proof -
  define u :: rat where "u = 1 / 2 ^ 53"
  \<comment> \<open>points per dollar\<close>
  have "1 / 2 ^ 14 \<le> 100 / C" "100 / C \<le> 2 ^ 7" using C by (simp_all add: field_simps)
  then have rc: "rng (- 14) 7 (100 / C)" using C by (simp add: rng_def power_int_minus field_simps)
  have dr: "is_fin r \<and> near (100 / C) (val r)"
    unfolding r using div_near [of "Num 100" "Num C" "- 14" 7] rc C by simp
  define R where "R = val r"
  have rR: "rng (- 15) 8 R" using rng_near [OF rc, of R] dr by (simp add: R_def)
  from near_delta [of "100 / C" R] dr obtain d0 where d0: "\<bar>d0\<bar> \<le> u" "R = 100 / C * (1 + d0)"
    by (auto simp: R_def u_def)
  have "1 - u \<le> 1 + d0" using d0(1) by (simp add: abs_le_iff)
  moreover have "0 < 1 - u" by (simp add: u_def)
  ultimately have "1 - u \<le> 1 + d0" "0 < 1 + d0" by linarith+
  moreover have "0 < 100 / C" using C by simp
  ultimately have Rlow: "100 / C * (1 - u) \<le> R" and Rpos: "0 < R"
    unfolding d0(2) by (simp_all only: mult_left_mono less_imp_le mult_pos_pos)
  \<comment> \<open>the product of value and rate\<close>
  have rV: "V = 0 \<or> rng (- 500) 500 V" using V by (auto simp: rng_def power_int_minus)
  define t where "t = js_mul (Num V) r"
  define T where "T = val t"
  have "V * R = 0 \<or> (rng (- 515) 508 (V * R) \<and> - 1022 \<le> (- 515 :: int) \<and> (508 :: int) \<le> 1022)"
    using rV rng_mult [of "- 500" 500 V "- 15" 8 R] rR by auto
  then have dt: "is_fin t \<and> near (V * R) T"
    unfolding t_def T_def using mul_near [of "Num V" r "- 515" 508] dr by (simp add: R_def)
  have rT: "T = 0 \<or> rng (- 516) 509 T"
    using rV rng_mult [of "- 500" 500 V "- 15" 8 R] rR rng_near [of "- 515" 508 "V * R" T] dt
    by auto
  \<comment> \<open>times one hundred\<close>
  define y where "y = js_mul t (Num 100)"
  define Y where "Y = val y"
  have "T * 100 = 0 \<or> (rng (- 510) 516 (T * 100) \<and> - 1022 \<le> (- 510 :: int) \<and> (516 :: int) \<le> 1022)"
    using rT rng_mult [of "- 516" 509 T 6 7 100] rng_100 by auto
  then have dy: "is_fin y \<and> near (T * 100) Y"
    unfolding y_def Y_def using mul_near [of t "Num 100" "- 510" 516] dt by (simp add: T_def)
  have rY: "Y = 0 \<or> rng (- 511) 517 Y"
    using rT rng_mult [of "- 516" 509 T 6 7 100] rng_100 rng_near [of "- 510" 516 "T * 100" Y] dy
    by auto
  have Yle: "\<bar>Y\<bar> \<le> 2 ^ 517" using rY by (auto simp: rng_def)
  \<comment> \<open>rounding to an integer\<close>
  define rd where "rd = math_round y"
  from round_near [of y] dy obtain n :: int
    where n: "is_fin rd" "val rd = of_int n" "\<bar>of_int n - Y\<bar> \<le> 1 / 2"
    by (auto simp: rd_def Y_def)
  have rN: "rat_of_int n = 0 \<or> rng 0 518 (of_int n)"
  proof (cases "n = 0")
    case False
    then have "1 \<le> \<bar>n\<bar>" by simp
    then have "(1::rat) \<le> \<bar>of_int n\<bar>" by (metis of_int_1_le_iff of_int_abs)
    moreover have "\<bar>rat_of_int n\<bar> \<le> \<bar>Y\<bar> + 1 / 2" using n(3) by linarith
    moreover have "(2::rat) ^ 517 + 1 / 2 \<le> 2 ^ 518" by simp
    ultimately show ?thesis using Yle by (simp add: rng_def)
  qed simp
  \<comment> \<open>divided by one hundred\<close>
  define p where "p = js_div rd (Num 100)"
  define P where "P = val p"
  have "val rd = 0 \<or> (rng (- 7) 512 (val rd / val (Num 100)) \<and> - 1022 \<le> (- 7 :: int) \<and> (512 :: int) \<le> 1022)"
    using rN rng_div [of 0 518 "of_int n" 6 7 100] rng_100 by (auto simp: n(2))
  then have dp: "is_fin p \<and> near (of_int n / 100) P"
    unfolding p_def P_def using div_near [of rd "Num 100" "- 7" 512] n(1) by (simp add: n(2))
  have rP: "P = 0 \<or> rng (- 8) 513 P"
    using rN rng_div [of 0 518 "of_int n" 6 7 100] rng_100
      rng_near [of "- 7" 512 "of_int n / 100" P] dp
    by auto
  \<comment> \<open>the redemption value\<close>
  define D where "D = val (js_div p r)"
  have R0: "val r \<noteq> 0" using Rpos by (simp add: R_def)
  have "val p = 0 \<or> (rng (- 16) 528 (val p / val r) \<and> - 1022 \<le> (- 16 :: int) \<and> (528 :: int) \<le> 1022)"
    using rP rng_div [of "- 8" 513 P "- 15" 8 R] rR by (auto simp: P_def R_def)
  then have dD: "is_fin (js_div p r) \<and> near (P / R) D"
    unfolding D_def using div_near [of p r "- 16" 528] dp dr R0 by (simp add: P_def R_def)
  \<comment> \<open>the four relative errors\<close>
  from near_delta [of "V * R" T] dt obtain d1 where d1: "\<bar>d1\<bar> \<le> u" "T = V * R * (1 + d1)"
    by (auto simp: u_def)
  from near_delta [of "T * 100" Y] dy obtain d2 where d2: "\<bar>d2\<bar> \<le> u" "Y = T * 100 * (1 + d2)"
    by (auto simp: u_def)
  from near_delta [of "of_int n / 100" P] dp obtain d3
    where d3: "\<bar>d3\<bar> \<le> u" "P = of_int n / 100 * (1 + d3)"
    by (auto simp: u_def)
  from near_delta [of "P / R" D] dD obtain d4 where d4: "\<bar>d4\<bar> \<le> u" "D = P / R * (1 + d4)"
    by (auto simp: u_def)
  have b1: "\<bar>D - V\<bar> \<le> \<bar>V\<bar> * ((1 + u) ^ 4 - 1) + (1 + u) ^ 2 / (200 * R)"
    using Rpos d1(2) d2(2) n(3) d3(2) d4(2) d1(1) d2(1) d3(1) d4(1) by (rule round_trip_algebra)
  have "\<bar>V\<bar> * ((1 + u) ^ 4 - 1) \<le> \<bar>V\<bar> * (1 / 2 ^ 50)"
    using unit_roundoff_bounds(1) unfolding u_def by (intro mult_left_mono) simp_all
  then have b2: "\<bar>V\<bar> * ((1 + u) ^ 4 - 1) \<le> \<bar>V\<bar> / 2 ^ 50" by simp
  have b3: "(1 + u) ^ 2 / (200 * R) \<le> 1 / 200 * (C / 100) * (1 + 1 / 2 ^ 51)"
  proof -
    have Cpos: "0 < C" using C by simp
    have up: "0 < 1 - u" by (simp add: u_def)
    define L where "L = 100 / C * (1 - u)"
    have Lpos: "0 < L" unfolding L_def using Cpos up by simp
    have LR: "L \<le> R" using Rlow by (simp add: L_def)
    have "(1 + u) ^ 2 / (200 * R) \<le> (1 + u) ^ 2 / (200 * L)"
      using LR Lpos Rpos by (intro divide_left_mono) simp_all
    also have "\<dots> \<le> ((1 + 1 / 2 ^ 51) * (1 - u)) / (200 * L)"
      using unit_roundoff_bounds(2) Lpos unfolding u_def by (intro divide_right_mono) simp_all
    also have "\<dots> = 1 / 200 * (C / 100) * (1 + 1 / 2 ^ 51)"
      using Cpos up by (simp add: L_def field_simps)
    finally show ?thesis .
  qed
  have "js_div pts r = js_div p r" by (simp add: pts p_def rd_def y_def t_def)
  then show ?thesis using dD b1 b2 b3 by (simp add: D_def)
qed

section \<open>Error bounds for every finite result\<close>

subsection \<open>One operation\<close>

text \<open>
  A finite result of a multiplication, division, addition or subtraction of doubles is
  \<^const>\<open>close\<close> to the exact result, whatever the operands: the operation rounds the exact
  result to the nearest double, and a result that is not finite is the only other outcome.
\<close>

lemma close_refl [simp]: "close x x"
  by (simp add: close_def)

lemma Fnum_close:
  assumes "is_fin (Fnum x)"
  shows "close x (val (Fnum x))"
proof (cases "x = 0")
  case True
  then show ?thesis by (simp add: Fnum_def)
next
  case False
  obtain m e where me: "0 \<le> m" "rhe (\<bar>x\<bar> / 2 powi e) = m"
    "e = max (binexp x - 52) (- 1074)"
    "Fnum x = (if 1024 \<le> binexp (of_int m * 2 powi e) then (if 0 < x then PosInf else NegInf)
               else if m = 0 then (if x < 0 then NegZero else Num 0)
               else Num (if x < 0 then - (of_int m * 2 powi e) else of_int m * 2 powi e))"
    by (rule Fnum_cases [OF False])
  define R where "R = rat_of_int m * 2 powi e"
  have pe: "0 < (2::rat) powi e" by (rule zero_less_power_int) simp
  have v: "val (Fnum x) = (if x < 0 then - R else R)"
    using assms unfolding me(4) R_def [symmetric] by (auto simp: R_def split: if_splits)
  have "\<bar>(if x < 0 then - R else R) - x\<bar> = \<bar>R - \<bar>x\<bar>\<bar>" by (auto simp: abs_if)
  also have "\<dots> = \<bar>of_int m - \<bar>x\<bar> / 2 powi e\<bar> * 2 powi e"
  proof -
    have "R - \<bar>x\<bar> = (of_int m - \<bar>x\<bar> / 2 powi e) * 2 powi e"
      using pe by (simp add: R_def left_diff_distrib)
    then show ?thesis using pe by (simp add: abs_mult)
  qed
  also have "\<dots> \<le> 1 / 2 * 2 powi e"
    using rhe_err [of "\<bar>x\<bar> / 2 powi e"] pe unfolding me(2) by (intro mult_right_mono) simp_all
  finally have err: "\<bar>val (Fnum x) - x\<bar> \<le> 1 / 2 * 2 powi e" by (simp only: v)
  show ?thesis
  proof (cases "binexp x - 52 \<le> - 1074")
    case True
    then have "e = - 1074" using me(3) by simp
    then have "1 / 2 * 2 powi e = (1 / 2 ^ 1075 :: rat)" by (simp add: power_int_minus)
    with err show ?thesis by (simp only: close_def) simp
  next
    case False
    then have "e = binexp x - 52" using me(3) by simp
    then have "1 / 2 * 2 powi e = 2 powi binexp x / (2 ^ 53 :: rat)"
      by (simp add: power_int_diff)
    also have "\<dots> \<le> \<bar>x\<bar> / 2 ^ 53"
      using binexp_bounds(1) [OF \<open>x \<noteq> 0\<close>] by (simp add: divide_right_mono)
    finally show ?thesis using err by (simp only: close_def) linarith
  qed
qed

lemma close_delta:
  assumes "close x z"
  shows "\<exists>d a. \<bar>d\<bar> \<le> 1 / 2 ^ 53 \<and> \<bar>a\<bar> \<le> 1 / 2 ^ 1075 \<and> z = x * (1 + d) + a"
proof (cases "\<bar>z - x\<bar> \<le> \<bar>x\<bar> / 2 ^ 53")
  case rel: True
  show ?thesis
  proof (cases "x = 0")
    case True
    with rel have "z = x * (1 + 0) + 0" by simp
    then show ?thesis by (intro exI [of _ 0] conjI) simp_all
  next
    case False
    define d where "d = (z - x) / x"
    have z: "z = x * (1 + d) + 0" using False by (simp add: d_def field_simps)
    have "\<bar>d\<bar> = \<bar>z - x\<bar> / \<bar>x\<bar>" by (simp add: d_def)
    also have "\<dots> \<le> (\<bar>x\<bar> / 2 ^ 53) / \<bar>x\<bar>"
      using rel by (intro divide_right_mono) simp_all
    also have "\<dots> = 1 / 2 ^ 53" using False by simp
    finally have "\<bar>d\<bar> \<le> 1 / 2 ^ 53" .
    with z show ?thesis by (intro exI [of _ d] exI [of _ 0] conjI) simp_all
  qed
next
  case False
  with assms have "\<bar>z - x\<bar> \<le> 1 / 2 ^ 1075" by (simp add: close_def)
  moreover have "z = x * (1 + 0) + (z - x)" by simp
  ultimately show ?thesis by (intro exI [of _ 0] exI [of _ "z - x"] conjI) simp_all
qed

lemma close_sum: "close x z \<Longrightarrow> \<bar>z - x\<bar> \<le> \<bar>x\<bar> / 2 ^ 53 + 1 / 2 ^ 1075"
proof -
  assume "close x z"
  moreover have "0 \<le> \<bar>x\<bar> / 2 ^ 53" by simp
  moreover have "(0::rat) \<le> 1 / 2 ^ 1075" by simp
  ultimately show ?thesis unfolding close_def by linarith
qed

lemma signed_inf_not_fin [simp]: "\<not> is_fin (signed_inf s)"
  by (simp add: signed_inf_def)

lemma mul_fin:
  assumes "is_fin (js_mul a b)"
  shows "is_fin a \<and> is_fin b"
  using assms by (cases a; cases b) (auto simp: js_mul_def split: if_splits)

lemma mul_close:
  assumes "is_fin (js_mul a b)"
  shows "close (val a * val b) (val (js_mul a b))"
proof -
  from mul_fin [OF assms] have f: "is_fin a" "is_fin b" by simp_all
  show ?thesis
  proof (cases "is_zero a \<or> is_zero b")
    case True
    then have "js_mul a b = signed_zero (sign_bit a \<noteq> sign_bit b)"
      using f by (cases a; cases b) (simp_all add: js_mul_def)
    moreover have "val a * val b = 0" using True by (cases a; cases b) auto
    ultimately show ?thesis by (simp del: mult_eq_0_iff)
  next
    case False
    have m: "js_mul a b = Fnum (val a * val b)"
      using False f by (cases a; cases b) (simp_all add: js_mul_def)
    from assms show ?thesis unfolding m by (rule Fnum_close)
  qed
qed

lemma div_fin:
  assumes "is_fin (js_div a b)" and "is_fin b"
  shows "is_fin a \<and> val b \<noteq> 0"
  using assms by (cases a; cases b) (auto simp: js_div_def split: if_splits)

lemma div_close:
  assumes "is_fin (js_div a b)" and "is_fin b"
  shows "close (val a / val b) (val (js_div a b))"
proof -
  from div_fin [OF assms] have f: "is_fin a" "val b \<noteq> 0" by simp_all
  show ?thesis
  proof (cases "is_zero a")
    case True
    then have "js_div a b = signed_zero (sign_bit a \<noteq> sign_bit b)"
      using f assms(2) by (cases a; cases b) (simp_all add: js_div_def)
    moreover have "val a / val b = 0" using True by (cases a) auto
    ultimately show ?thesis by (simp del: divide_eq_0_iff)
  next
    case False
    have m: "js_div a b = Fnum (val a / val b)"
      using False f assms(2) by (cases a; cases b) (simp_all add: js_div_def)
    from assms(1) show ?thesis unfolding m by (rule Fnum_close)
  qed
qed

lemma add_close:
  assumes "is_fin a" and "is_fin b" and "is_fin (js_add a b)"
  shows "close (val a + val b) (val (js_add a b))"
proof (cases "a = NegZero \<and> b = NegZero")
  case True
  then show ?thesis by (simp add: js_add_def)
next
  case False
  have m: "js_add a b = Fnum (val a + val b)"
    using False assms(1,2) by (cases a; cases b) (simp_all add: js_add_def)
  from assms(3) show ?thesis unfolding m by (rule Fnum_close)
qed

lemma neg_fin: "is_fin b \<Longrightarrow> is_fin (js_neg b) \<and> val (js_neg b) = - val b"
  by (cases b) simp_all

lemma sub_close:
  assumes "is_fin a" and "is_fin b" and "is_fin (js_sub a b)"
  shows "close (val a - val b) (val (js_sub a b))"
  using add_close [of a "js_neg b"] neg_fin [OF assms(2)] assms(1,3) by (simp add: js_sub_def)

lemma round_fin: "is_fin (math_round a) \<Longrightarrow> is_fin a"
  by (cases a) simp_all

lemma round_half:
  assumes "is_fin a"
  shows "\<exists>n::int. val (math_round a) = of_int n \<and> \<bar>of_int n - val a\<bar> \<le> 1 / 2"
  using round_near [OF assms] by simp

subsection \<open>The four roundings between the earned value and its redemption\<close>

lemma round_trip_algebra2:
  fixes V R T Y N P D :: rat
  assumes R: "0 < R"
    and T: "T = V * R * (1 + d1) + a1" and Y: "Y = T * 100 * (1 + d2) + a2"
    and N: "\<bar>N - Y\<bar> \<le> 1 / 2"
    and P: "P = N / 100 * (1 + d3) + a3" and D: "D = P / R * (1 + d4) + a4"
    and d: "\<bar>d1\<bar> \<le> u" "\<bar>d2\<bar> \<le> u" "\<bar>d3\<bar> \<le> u" "\<bar>d4\<bar> \<le> u"
    and a: "\<bar>a1\<bar> \<le> h" "\<bar>a2\<bar> \<le> h" "\<bar>a3\<bar> \<le> h" "\<bar>a4\<bar> \<le> h"
  shows "\<bar>D - V\<bar> \<le> \<bar>V\<bar> * ((1 + u) ^ 4 - 1)
           + ((1 / 2 + h + 100 * (h * (1 + u))) * (1 + u) ^ 2 / 100 + h * (1 + u)) / R + h"
proof -
  define a where "a = (1 + d1) * (1 + d2)"
  define b where "b = (1 + d3) * (1 + d4)"
  define w where "w = 2 * u + u * u"
  define c where "c = (N - Y) + a2 + 100 * (a1 * (1 + d2))"
  have u0: "0 \<le> u" using d(1) by linarith
  have h0: "0 \<le> h" using a(1) by linarith
  have a1: "\<bar>a - 1\<bar> \<le> w" unfolding a_def w_def using d(1,2) by (rule one_plus_err)
  have b1: "\<bar>b - 1\<bar> \<le> w" unfolding b_def w_def using d(3,4) by (rule one_plus_err)
  have ab: "\<bar>a * b - 1\<bar> \<le> w + w + w * w" using a1 b1 by (rule prod_err)
  have w4: "w + w + w * w = (1 + u) ^ 4 - 1" by (simp add: w_def power4_eq_xxxx algebra_simps)
  have w2: "1 + w = (1 + u) ^ 2" by (simp add: w_def power2_eq_square algebra_simps)
  have bb: "\<bar>b\<bar> \<le> (1 + u) ^ 2" using b1 w2 by linarith
  have p2: "\<bar>1 + d2\<bar> \<le> 1 + u" and p4: "\<bar>1 + d4\<bar> \<le> 1 + u" using d(2,4) by linarith+
  have eq: "D - V = V * (a * b - 1) + c * b / (100 * R) + a3 * (1 + d4) / R + a4"
    using R by (simp add: D P Y T a_def b_def c_def field_simps)
  have t1: "\<bar>V * (a * b - 1)\<bar> \<le> \<bar>V\<bar> * ((1 + u) ^ 4 - 1)"
    using ab w4 by (simp add: abs_mult mult_left_mono)
  define g where "g = a1 * (1 + d2)"
  have "\<bar>g\<bar> \<le> h * (1 + u)"
    unfolding g_def abs_mult using a(1) p2 by (intro mult_mono) simp_all
  moreover have "c = (N - Y) + a2 + 100 * g" by (simp add: c_def g_def)
  ultimately have cc: "\<bar>c\<bar> \<le> 1 / 2 + h + 100 * (h * (1 + u))"
    using N a(2) by linarith
  have c0: "0 \<le> 1 / 2 + h + 100 * (h * (1 + u))" using cc by linarith
  have "\<bar>c * b\<bar> \<le> (1 / 2 + h + 100 * (h * (1 + u))) * (1 + u) ^ 2"
    unfolding abs_mult using cc bb c0 by (intro mult_mono) simp_all
  then have "\<bar>c * b\<bar> / (100 * R) \<le> ((1 / 2 + h + 100 * (h * (1 + u))) * (1 + u) ^ 2) / (100 * R)"
    using R by (intro divide_right_mono) simp_all
  then have t2: "\<bar>c * b / (100 * R)\<bar> \<le> ((1 / 2 + h + 100 * (h * (1 + u))) * (1 + u) ^ 2 / 100) / R"
    using R by (simp add: abs_mult)
  have "\<bar>a3 * (1 + d4)\<bar> \<le> h * (1 + u)"
    unfolding abs_mult using a(3) p4 by (intro mult_mono) simp_all
  then have "\<bar>a3 * (1 + d4)\<bar> / R \<le> h * (1 + u) / R"
    using R by (intro divide_right_mono) simp_all
  then have t3: "\<bar>a3 * (1 + d4) / R\<bar> \<le> h * (1 + u) / R" using R by simp
  have "\<bar>D - V\<bar> \<le> \<bar>V\<bar> * ((1 + u) ^ 4 - 1)
      + ((1 / 2 + h + 100 * (h * (1 + u))) * (1 + u) ^ 2 / 100) / R + h * (1 + u) / R + h"
    unfolding eq using t1 t2 t3 a(4) by linarith
  then show ?thesis by (simp add: add_divide_distrib)
qed

lemma roundoff_numbers:
  "(1 + 1 / 2 ^ 53) ^ 4 - 1 \<le> (1 / 2 ^ 50 :: rat)"
  "((1 / 2 + 1 / 2 ^ 100 + 100 * (1 / 2 ^ 100 * (1 + 1 / 2 ^ 53))) * (1 + 1 / 2 ^ 53) ^ 2 / 100
      + 1 / 2 ^ 100 * (1 + 1 / 2 ^ 53)) * (1 / 100)
     + 1 / 2 ^ 100 * (1 - 1 / 2 ^ 53)
   \<le> 1 / 200 * (1 / 100) * (1 + 1 / 2 ^ 51) * (1 - 1 / 2 ^ 53 :: rat)"
  "(1 / 2 ^ 1075 :: rat) \<le> 1 / 2 ^ 100"
  by (simp_all add: power_divide)

lemma points_per_dollar:
  fixes C :: rat
  assumes C: "1 \<le> C" "C < 2 ^ 1024"
  shows "\<exists>R. js_div (Num 100) (Num C) = Num R \<and> 100 / C * (1 - 1 / 2 ^ 53) \<le> R \<and> 0 < R"
proof -
  have Cpos: "0 < C" using C by simp
  have "2 powi (- 1022) * C \<le> 2 powi (- 1022) * 2 ^ 1024"
    using C(2) by (intro mult_left_mono) simp_all
  also have "\<dots> = 2 powi (- 1022) * 2 powi 1024" by simp
  also have "\<dots> = 2 powi 2" by (simp flip: power_int_add)
  also have "\<dots> \<le> 100" by simp
  finally have lo: "2 powi (- 1022) \<le> \<bar>100 / C\<bar>" using Cpos by (simp add: le_divide_eq)
  have "\<bar>100 / C\<bar> \<le> 100" using C(1) by (simp add: divide_le_eq)
  moreover have "(100::rat) < 2 powi 1023"
  proof -
    have "(100::rat) < 2 powi 7" by simp
    also have "\<dots> \<le> 2 powi 1023" by (simp only: pow2_le_iff)
    finally show ?thesis .
  qed
  ultimately have hi: "\<bar>100 / C\<bar> < 2 powi 1023" by linarith
  from Fnum_rel [OF lo hi] obtain R where R: "Fnum (100 / C) = Num R"
    "\<bar>R - 100 / C\<bar> \<le> \<bar>100 / C\<bar> / 2 ^ 53" by blast
  have p: "0 < 100 / C" using Cpos by simp
  then have "100 / C - (100 / C) / 2 ^ 53 \<le> R" using R(2) by (simp add: abs_le_iff)
  then have low: "100 / C * (1 - 1 / 2 ^ 53) \<le> R" by (simp add: algebra_simps)
  have "0 < 100 / C * (1 - 1 / 2 ^ 53)" using p by (intro mult_pos_pos) simp_all
  with low have "0 < R" by linarith
  moreover have "js_div (Num 100) (Num C) = Fnum (100 / C)" using Cpos by (simp add: js_div_def)
  ultimately show ?thesis using R(1) low by simp
qed

lemma close_delta_loose:
  assumes "close x z"
  shows "\<exists>d a. \<bar>d\<bar> \<le> 1 / 2 ^ 53 \<and> \<bar>a\<bar> \<le> 1 / 2 ^ 100 \<and> z = x * (1 + d) + a"
proof -
  from close_delta [OF assms] obtain d a
    where "\<bar>d\<bar> \<le> 1 / 2 ^ 53" "\<bar>a\<bar> \<le> 1 / 2 ^ 1075" "z = x * (1 + d) + a" by blast
  moreover from this(2) roundoff_numbers(3) have "\<bar>a\<bar> \<le> 1 / 2 ^ 100" by (rule order_trans)
  ultimately show ?thesis by blast
qed

lemma round_trip_finite:
  fixes C :: rat
  assumes C: "1 \<le> C" "C < 2 ^ 1024"
    and r: "r = js_div (Num 100) (Num C)"
    and pts: "pts = js_div (math_round (js_mul (js_mul v r) (Num 100))) (Num 100)"
    and fin: "is_fin (js_div pts r)"
  shows "is_fin v
       \<and> \<bar>val (js_div pts r) - val v\<bar> \<le> 1 / 200 * (C / 100) * (1 + 1 / 2 ^ 51) + \<bar>val v\<bar> / 2 ^ 50"
proof -
  define u :: rat where "u = 1 / 2 ^ 53"
  define h :: rat where "h = 1 / 2 ^ 100"
  from points_per_dollar [OF C] obtain R where R: "r = Num R" "100 / C * (1 - u) \<le> R" "0 < R"
    unfolding r u_def by blast
  have fr: "is_fin r" "val r = R" using R(1) by simp_all
  define t where "t = js_mul v r"
  define y where "y = js_mul t (Num 100)"
  define rd where "rd = math_round y"
  define p where "p = js_div rd (Num 100)"
  have pp: "pts = p" by (simp add: pts p_def rd_def y_def t_def)
  have fD: "is_fin (js_div p r)" using fin pp by simp
  from div_fin [OF fD fr(1)] have fp: "is_fin p" by simp
  then have fp': "is_fin (js_div rd (Num 100))" by (simp add: p_def)
  from div_fin [OF fp'] have frd: "is_fin rd" by simp
  then have fy: "is_fin y" unfolding rd_def by (rule round_fin)
  then have fy': "is_fin (js_mul t (Num 100))" by (simp add: y_def)
  from mul_fin [OF fy'] have ft: "is_fin t" by simp
  then have ft': "is_fin (js_mul v r)" by (simp add: t_def)
  from mul_fin [OF ft'] have fv: "is_fin v" by simp
  define V where "V = val v"
  define T where "T = val t"
  define Y where "Y = val y"
  define P where "P = val p"
  define D where "D = val (js_div p r)"
  have cT: "close (V * R) T" using mul_close [OF ft'] by (simp add: V_def T_def t_def fr(2))
  have cY: "close (T * 100) Y" using mul_close [OF fy'] by (simp add: T_def Y_def y_def)
  from round_half [OF fy] obtain n :: int
    where n: "val rd = of_int n" "\<bar>of_int n - Y\<bar> \<le> 1 / 2"
    by (auto simp: rd_def Y_def)
  have cP: "close (of_int n / 100) P" using div_close [OF fp'] by (simp add: P_def p_def n(1))
  have cD: "close (P / R) D" using div_close [OF fD fr(1)] by (simp add: D_def P_def fr(2))
  from close_delta_loose [OF cT] obtain d1 a1
    where 1: "\<bar>d1\<bar> \<le> u" "\<bar>a1\<bar> \<le> h" "T = V * R * (1 + d1) + a1"
    unfolding u_def h_def by blast
  from close_delta_loose [OF cY] obtain d2 a2
    where 2: "\<bar>d2\<bar> \<le> u" "\<bar>a2\<bar> \<le> h" "Y = T * 100 * (1 + d2) + a2"
    unfolding u_def h_def by blast
  from close_delta_loose [OF cP] obtain d3 a3
    where 3: "\<bar>d3\<bar> \<le> u" "\<bar>a3\<bar> \<le> h" "P = of_int n / 100 * (1 + d3) + a3"
    unfolding u_def h_def by blast
  from close_delta_loose [OF cD] obtain d4 a4
    where 4: "\<bar>d4\<bar> \<le> u" "\<bar>a4\<bar> \<le> h" "D = P / R * (1 + d4) + a4"
    unfolding u_def h_def by blast
  define W where "W = (1 / 2 + h + 100 * (h * (1 + u))) * (1 + u) ^ 2 / 100 + h * (1 + u)"
  have b1: "\<bar>D - V\<bar> \<le> \<bar>V\<bar> * ((1 + u) ^ 4 - 1) + W / R + h"
    unfolding W_def
    using R(3) 1(3) 2(3) n(2) 3(3) 4(3) 1(1) 2(1) 3(1) 4(1) 1(2) 2(2) 3(2) 4(2)
    by (rule round_trip_algebra2)
  have "\<bar>V\<bar> * ((1 + u) ^ 4 - 1) \<le> \<bar>V\<bar> * (1 / 2 ^ 50)"
    using roundoff_numbers(1) unfolding u_def by (intro mult_left_mono) simp_all
  then have b2: "\<bar>V\<bar> * ((1 + u) ^ 4 - 1) \<le> \<bar>V\<bar> / 2 ^ 50" by simp
  have Cpos: "0 < C" using C by simp
  have up: "0 < 1 - u" by (simp add: u_def)
  have W0: "0 \<le> W" by (simp add: W_def u_def h_def)
  have h0: "0 \<le> h" by (simp add: h_def)
  define L where "L = 100 / C * (1 - u)"
  have Lpos: "0 < L" unfolding L_def using Cpos up by simp
  have LR: "L \<le> R" using R(2) by (simp add: L_def)
  define K :: rat where "K = 1 / 200 * (1 / 100) * (1 + 1 / 2 ^ 51)"
  have num: "W * (1 / 100) + h * (1 - u) \<le> K * (1 - u)"
    unfolding W_def u_def h_def K_def by (rule roundoff_numbers(2))
  have "W / R \<le> W / L" using LR Lpos R(3) W0 by (intro divide_left_mono) simp_all
  also have "\<dots> = W * (1 / 100) * C / (1 - u)" using Cpos up by (simp add: L_def field_simps)
  finally have wr: "W / R \<le> W * (1 / 100) * C / (1 - u)" .
  have "h \<le> h * C" using C(1) h0 by (simp add: mult_le_cancel_left1)
  also have "\<dots> = h * (1 - u) * C / (1 - u)" using up by simp
  finally have hc: "h \<le> h * (1 - u) * C / (1 - u)" .
  have "W / R + h \<le> (W * (1 / 100) + h * (1 - u)) * C / (1 - u)"
    using wr hc by (simp add: add_divide_distrib distrib_right)
  also have "\<dots> \<le> (K * (1 - u)) * C / (1 - u)"
    using num Cpos up by (intro divide_right_mono mult_right_mono) simp_all
  also have "\<dots> = K * C" using up by simp
  also have "\<dots> = 1 / 200 * (C / 100) * (1 + 1 / 2 ^ 51)" by (simp add: K_def)
  finally have b3: "W / R + h \<le> 1 / 200 * (C / 100) * (1 + 1 / 2 ^ 51)" .
  have "\<bar>D - V\<bar> \<le> 1 / 200 * (C / 100) * (1 + 1 / 2 ^ 51) + \<bar>V\<bar> / 2 ^ 50"
    using b1 b2 b3 by linarith
  then show ?thesis using fv by (simp add: D_def V_def pp)
qed

subsection \<open>Sums and differences of balances\<close>

lemma add_fin:
  assumes "is_fin (js_add a b)"
  shows "is_fin a \<and> is_fin b"
  using assms by (cases a; cases b) (auto simp: js_add_def split: if_splits)

lemma sub_fin:
  assumes "is_fin (js_sub a b)"
  shows "is_fin a \<and> is_fin b"
proof -
  from add_fin [of a "js_neg b"] assms have "is_fin a" "is_fin (js_neg b)"
    by (simp_all add: js_sub_def)
  then show ?thesis by (cases b) simp_all
qed

lemma add_err:
  assumes "is_fin (js_add a b)"
  shows "\<bar>val (js_add a b) - (val a + val b)\<bar> \<le> \<bar>val a + val b\<bar> / 2 ^ 53 + 1 / 2 ^ 1075"
proof -
  from add_fin [OF assms] have "is_fin a" "is_fin b" by simp_all
  from add_close [OF this assms] show ?thesis by (rule close_sum)
qed

lemma sub_err:
  assumes "is_fin (js_sub a b)"
  shows "\<bar>val (js_sub a b) - (val a - val b)\<bar> \<le> \<bar>val a - val b\<bar> / 2 ^ 53 + 1 / 2 ^ 1075"
proof -
  from sub_fin [OF assms] have "is_fin a" "is_fin b" by simp_all
  from sub_close [OF this assms] show ?thesis by (rule close_sum)
qed

lemma add_Num: "js_add (Num p) (Num q) = Fnum (p + q)"
  by (simp add: js_add_def)

lemma sub_Num: "js_gt (Num q) (Num 0) \<Longrightarrow> js_sub (Num p) (Num q) = Fnum (p - q)"
  by (auto simp: js_sub_def js_add_def js_gt_def js_lessThan_def split: if_splits)

lemma round_Num:
  "math_round (Num q) = (if q < 0 \<and> - (1 / 2) \<le> q then NegZero else Num (of_int \<lfloor>q + 1 / 2\<rfloor>))"
  by simp

section \<open>Facts about the handlers\<close>

subsection \<open>The numbers of the example session\<close>

lemma scen1: "js_div (js_mul (Num 120) (Num 5)) (Num 100) = Num 6"
  by code_simp

lemma scen2: "js_div (Num 100) (Num 100) = Num 1"
  by code_simp

lemma scen3: "js_div (math_round (js_mul (js_mul (Num 6) (Num 1)) (Num 100))) (Num 100) = Num 6"
  by code_simp

lemma scen4: "js_add (Num 0) (Num 6) = Num 6"
  by code_simp

lemma scen5: "js_sub (Num 6) (Num 6) = Num 0"
  by code_simp

lemma scen6: "js_div (Num 6) (Num 1) = Num 6"
  by code_simp

lemma scen7: "js_sub (Num 6) (Num 2) = Num 4"
  by code_simp

lemma thirty1:
  "js_div (js_mul (Fnum (3 / 10)) (Num 5)) (Num 100) = Num (1080863910568919 / 72057594037927936)"
  by code_simp

lemma thirty2:
  "js_div (math_round (js_mul (js_mul (Num (1080863910568919 / 72057594037927936)) (Num 1))
     (Num 100))) (Num 100) = Num (5764607523034235 / 288230376151711744)"
  by code_simp

lemma thirty3:
  "js_div (Num (5764607523034235 / 288230376151711744)) (Num 1)
     = Num (5764607523034235 / 288230376151711744)"
  by code_simp

lemma thirty4:
  "js_gt (js_sub (Num (5764607523034235 / 288230376151711744))
     (Num (1080863910568919 / 72057594037927936))) (Fnum (5 / 1000))"
  by code_simp

lemma thirty5:
  "js_mul (js_mul (Num (1080863910568919 / 72057594037927936)) (js_div (Num 100) (Num 100)))
     (Num 100) = Num (3 / 2)"
  by code_simp

lemma thirty6:
  "js_add (Num 0) (Num (5764607523034235 / 288230376151711744))
     = Num (5764607523034235 / 288230376151711744)"
  by code_simp

lemma thirty7: "js_div (Num 2) (Num 100) = Num (5764607523034235 / 288230376151711744)"
  by code_simp

lemma thirty8: "js_gt (Fnum (3 / 10)) (Num 0)"
  by code_simp

lemma tenth1:
  "js_div (js_mul (Num 2) (Num 5)) (Num 100) = Num (3602879701896397 / 36028797018963968)"
  by code_simp

lemma tenth2:
  "js_div (math_round (js_mul (js_mul (Num (3602879701896397 / 36028797018963968)) (Num 1))
     (Num 100))) (Num 100) = Num (3602879701896397 / 36028797018963968)"
  by code_simp

lemma tenth3:
  "js_add (Num 6) (Num (3602879701896397 / 36028797018963968))
     = Num (3433994715870003 / 562949953421312)"
  by code_simp

lemma tenth4:
  "js_sub (Num 6) (Num (3602879701896397 / 36028797018963968))
     = Num (3321404725185741 / 562949953421312)"
  by code_simp

lemma tenth5:
  "js_div (Num (3602879701896397 / 36028797018963968)) (Num 1)
     = Num (3602879701896397 / 36028797018963968)"
  by code_simp

lemma tenth6:
  "js_gt (Num (3602879701896397 / 36028797018963968)) (Num 0)"
  "js_le (Num (3602879701896397 / 36028797018963968)) (Num 6)"
  "js_gt (Num 2) (Num 0)"
  by (simp_all add: js_gt_def js_le_def js_lessThan_def)

lemma tenth7:
  "js_sub (Num (3433994715870003 / 562949953421312)) (Num 6)
     = Num (56294995342131 / 562949953421312)"
  by code_simp

lemma gt_120: "js_gt (Num 120) (Num 0)"
  by (simp add: js_gt_def js_lessThan_def)

subsection \<open>Render and comparisons\<close>

lemma find_active:
  "List.find (\<lambda>p. id' p = i) ps = Some p \<Longrightarrow> id' p = i \<and> p \<in> set ps"
  by (auto simp: find_Some_iff)

lemma render_Inr:
  assumes "render s = Inr v"
  shows "List.find (\<lambda>p. id' p = selected s) (programs s) = Some (activeProgram v)"
    and "activeBalance v = or_zero (balances s (selected s))"
    and "earnValueUsd v = js_div (js_mul (purchaseUsd s) (earnRatePct (activeProgram v))) (Num 100)"
    and "ptsPerDollar v = js_div (Num 100) (fixedCentsPerPoint (activeProgram v))"
    and "earnPts v = js_div (math_round (js_mul (js_mul (earnValueUsd v) (ptsPerDollar v)) (Num 100))) (Num 100)"
  using assms by (auto simp: render_def Let_def split: option.splits)

lemma render_demo: "render demo_state = Inr demo_view"
  by (simp add: render_def demo_state_def demo_view_def mockConnect_def initial_def
      DEMO_PROGRAMS_def Let_def scen1 scen2 scen3)

lemma render_thirty: "render thirty_cents = Inr thirty_view"
  by (simp add: render_def thirty_cents_def thirty_view_def demo_state_def mockConnect_def
      initial_def DEMO_PROGRAMS_def Let_def thirty1 thirty2 scen2)

lemma render_initial: "render initial = Inr demo_view"
  by (simp add: render_def demo_view_def initial_def DEMO_PROGRAMS_def Let_def scen1 scen2 scen3)

lemma positive_le:
  assumes "js_gt a (Num 0)" and "js_le a b"
  shows "or_zero (Some b) = b" and "\<not> js_gt a b" and "\<not> js_le a (Num 0)"
proof -
  from assms show "or_zero (Some b) = b"
    by (cases a; cases b) (auto simp: js_gt_def js_le_def js_lessThan_def split: if_splits)
  from assms show "\<not> js_gt a b"
    by (auto simp: js_gt_def js_le_def)
  from assms show "\<not> js_le a (Num 0)"
    by (auto simp: js_gt_def js_le_def js_lessThan_def split: if_splits)
qed

subsection \<open>The example session\<close>

lemma wallet_demo: "wallet demo_state \<noteq> None"
  by (simp add: demo_state_def mockConnect_def)

lemma purchase_demo: "purchaseUsd demo_state = Num 120"
  by (simp add: demo_state_def mockConnect_def initial_def)

lemma issued_fields:
  "selected issued_state = ''p1''"
  "programs issued_state = DEMO_PROGRAMS"
  "purchaseUsd issued_state = Num 120"
  "balances issued_state ''p1'' = Some (Num 6)"
  "map type' (ledger issued_state) = [ISSUE]"
  "map amountUsd (ledger issued_state) = [Num 6]"
  by (simp_all add: issued_state_def issuePoints_def wallet_demo purchase_demo gt_120 js_le_def
      js_lessThan_def Let_def demo_state_def mockConnect_def initial_def DEMO_PROGRAMS_def
      demo_view_def scen4)

lemma render_issued: "render issued_state = Inr issued_view"
  by (simp add: render_def issued_fields issued_view_def demo_view_def DEMO_PROGRAMS_def Let_def
      scen1 scen2 scen3)

lemma wallet_issued: "wallet issued_state \<noteq> None"
  by (simp add: issued_state_def wallet_demo issuePoints_def gt_120 purchase_demo js_le_def
      js_lessThan_def Let_def)

lemma two_fields:
  "wallet two_dollars \<noteq> None"
  "selected two_dollars = ''p1''"
  "purchaseUsd two_dollars = Num 2"
  "balances two_dollars ''p1'' = Some (Num 6)"
  by (simp_all add: two_dollars_def issued_fields wallet_issued)

lemma render_two: "render two_dollars = Inr two_view"
  by (simp add: render_def two_dollars_def issued_fields two_view_def DEMO_PROGRAMS_def Let_def
      tenth1 tenth2 scen2)

lemma nan_ops:
  "js_mul x NaN = NaN" "js_mul NaN x = NaN" "js_div x NaN = NaN" "js_div NaN x = NaN"
  "js_add x NaN = NaN" "js_add NaN x = NaN"
  by (simp_all add: js_mul_def js_div_def js_add_def)

lemmas eval_defs = render_def initial_def DEMO_PROGRAMS_def Let_def mockConnect_def issuePoints_def
  redeem_def createClick_def addProgram_def resetAll_def math_max_def js_gt_def js_le_def
  js_lessThan_def draw1_def draw2_def acme_def nan_form_def

subsection \<open>Doubles stay doubles\<close>

lemma js_div_double: "js_div a b = Num r \<Longrightarrow> Fnum r = Num r"
  by (auto simp: js_div_def signed_zero_def signed_inf_def Fnum_def [of 0] split: if_splits
      intro: Fnum_idem)

lemma add_zero_left:
  assumes "x \<noteq> NegZero" and "\<And>r. x = Num r \<Longrightarrow> Fnum r = Num r"
  shows "js_add (Num 0) x = x"
  using assms by (cases x) (simp_all add: js_add_def)

lemma render_after_balances:
  assumes "render s = Inr v"
    and "programs s' = programs s" and "selected s' = selected s" and "purchaseUsd s' = purchaseUsd s"
  shows "render s' = Inr (v\<lparr>activeBalance := or_zero (balances s' (selected s))\<rparr>)"
  using assms by (auto simp: render_def Let_def split: option.splits)

subsection \<open>Listed ids are found\<close>

lemma find_Some_ex:
  "i \<in> set (map id' ps) \<Longrightarrow> \<exists>p. List.find (\<lambda>p. id' p = i) ps = Some p"
  by (cases "List.find (\<lambda>p. id' p = i) ps") (auto simp: find_None_iff)

lemma render_ok:
  "selected s \<in> set (map id' (programs s)) \<Longrightarrow> \<exists>v. render s = Inr v"
  using find_Some_ex [of "selected s" "programs s"] by (auto simp: render_def Let_def)

lemma step_ref_ok:
  assumes "ref_ok s" and "step fmt s ev = Some s'"
  shows "ref_ok s'"
proof -
  obtain v where v: "render s = Inr v"
    using assms(2) by (cases "render s") auto
  show ?thesis
  proof (cases ev)
    case (Connect n r1 r2)
    with assms v show ?thesis
      by (auto simp: ref_ok_def mockConnect_def Let_def split: if_splits)
  next
    case Disconnect
    with assms v show ?thesis by (auto simp: ref_ok_def split: if_splits)
  next
    case (Select i)
    with assms v show ?thesis by (auto simp: ref_ok_def split: if_splits)
  next
    case (SetPurchase x)
    with assms v show ?thesis by (auto simp: ref_ok_def)
  next
    case (Issue now)
    with assms v show ?thesis
      by (auto simp: ref_ok_def issuePoints_def Let_def split: if_splits)
  next
    case (Redeem now amount)
    with assms v show ?thesis
      by (auto simp: ref_ok_def redeem_def Let_def split: if_splits)
  next
    case (Create rnd f)
    with assms v show ?thesis
      by (auto simp: ref_ok_def createClick_def addProgram_def Let_def list_all_iff
          split: if_splits prod.splits)
  next
    case Reset
    with assms v show ?thesis
      by (auto simp: ref_ok_def resetAll_def DEMO_PROGRAMS_def)
  qed
qed

lemma run_ref_ok:
  "ref_ok s \<Longrightarrow> run fmt s evs = Some s' \<Longrightarrow> ref_ok s'"
proof (induction evs arbitrary: s)
  case Nil
  then show ?case by simp
next
  case (Cons ev evs)
  from Cons.prems(2) obtain s1 where s1: "step fmt s ev = Some s1" and r: "run fmt s1 evs = Some s'"
    by (auto split: option.splits simp del: step.simps)
  from step_ref_ok [OF Cons.prems(1) s1] have "ref_ok s1" .
  from Cons.IH [OF this r] show ?case .
qed

lemma ref_ok_initial: "ref_ok initial"
  by (simp add: ref_ok_def initial_def DEMO_PROGRAMS_def)

subsection \<open>The form's checks\<close>

lemma createClick_rejects_empty:
  "nm = [] \<or> symbol = [] \<Longrightarrow>
   createClick rnd (nm, symbol, value, earn, breakage) s
     = (Some ''Name & symbol required'', (nm, symbol, value, earn, breakage), s)"
  by (simp add: createClick_def)

lemma math_max_clamps:
  assumes "x \<noteq> NaN" and "lo = Num 1 \<or> lo = Num 0"
  shows "js_le lo (math_max [lo, x])"
  using assms
  by (cases x) (auto simp: math_max_def js_le_def js_gt_def js_lessThan_def)

section \<open>Issuing points\<close>

text \<open>
  Claim C1, as stated: a click on Issue increases the balance of the selected program by
  exactly the earned points.  The balance is a double, and the click stores the sum of
  doubles \<^verbatim>\<open>(balances[selected] || 0) + earnPts\<close>.  In the session that has issued 6 points
  to the first seed program (100 cents a point, 5 percent), a purchase of 2 earns the double
  0.1; the click leaves the balance at the double 6.1, and 6.1 less 6 is not the double 0.1,
  neither as rationals nor in the arithmetic of the page (\<^verbatim>\<open>6.1 - 6 !== 0.1\<close>).
\<close>

theorem issue_stores_rounded_sum:
  "wallet two_dollars \<noteq> None \<and> js_gt (purchaseUsd two_dollars) (Num 0)
   \<and> render two_dollars = Inr two_view
   \<and> balances two_dollars (selected two_dollars) = Some (Num 6)
   \<and> earnPts two_view = Num (3602879701896397 / 36028797018963968)
   \<and> balances (snd (issuePoints 1730000060000 usd two_dollars two_view)) (selected two_dollars)
       = Some (Num (3433994715870003 / 562949953421312))
   \<and> (3433994715870003 / 562949953421312 :: rat) - 6 \<noteq> 3602879701896397 / 36028797018963968
   \<and> js_sub (Num (3433994715870003 / 562949953421312)) (Num 6)
       \<noteq> Num (3602879701896397 / 36028797018963968)"
  using render_two
  by (simp add: two_fields tenth6 two_view_def issuePoints_def js_le_def js_lessThan_def Let_def
      tenth3 tenth7)

text \<open>
  Claim C1, as amended.  With a wallet connected and a purchase amount above 0,
  \<^verbatim>\<open>issuePoints\<close> shows no alert, sets the balance of the selected program to the double
  nearest to its old value (read as 0 when the entry is absent, and also when it is 0 or
  NaN: the \<^verbatim>\<open>|| 0\<close> of the source) plus the earned points, and puts exactly one ISSUE row in
  front of the ledger, with \<^verbatim>\<open>amountPts\<close> the earned points and \<^verbatim>\<open>amountUsd\<close> the earned
  value.  The increase is exactly the earned points when the old balance reads as 0, and
  whenever the exact sum is a double; in every case where the new balance is finite it
  differs from the exact sum by at most the relative error \<open>2\<^sup>-\<^sup>5\<^sup>3\<close> plus \<open>2\<^sup>-\<^sup>1\<^sup>0\<^sup>7\<^sup>5\<close>.
  The earned points are \<^verbatim>\<open>Math.round(earnValueUsd * (100 / fixedCentsPerPoint) * 100) / 100\<close>,
  where \<^verbatim>\<open>Math.round\<close> of a finite \<open>q\<close> is \<open>\<lfloor>q + 1/2\<rfloor>\<close> (and -0 for \<open>-1/2 \<le> q < 0\<close>).
  For a program worth 100 cents a point that earns 5 percent, a purchase of 120 and a
  balance of 0, the new balance is 6 and the row carries 6 points and 6 dollars.
\<close>

theorem issuePoints_credits:
  assumes "wallet s \<noteq> None" and "js_gt (purchaseUsd s) (Num 0)" and "render s = Inr v"
  shows "fst (issuePoints now fmt s v) = None
    \<and> balances (snd (issuePoints now fmt s v))
        = (balances s)(selected s \<mapsto> js_add (or_zero (balances s (selected s))) (earnPts v))
    \<and> ledger (snd (issuePoints now fmt s v))
        = \<lparr>ts = now, type' = ISSUE, programId = selected s, amountPts = earnPts v,
           amountUsd = earnValueUsd v, note' = Some (''Purchase '' @ fmt (purchaseUsd s))\<rparr>
          # ledger s
    \<and> (balances s (selected s) = None
         \<longrightarrow> balances (snd (issuePoints now fmt s v)) (selected s)
             = Some (js_add (Num 0) (earnPts v)))
    \<and> (\<forall>b. balances s (selected s) = Some b \<and> to_boolean b
         \<longrightarrow> balances (snd (issuePoints now fmt s v)) (selected s)
             = Some (js_add b (earnPts v)))
    \<and> (or_zero (balances s (selected s)) = Num 0 \<and> earnPts v \<noteq> NegZero
         \<longrightarrow> balances (snd (issuePoints now fmt s v)) (selected s) = Some (earnPts v))
    \<and> (\<forall>p q. or_zero (balances s (selected s)) = Num p \<and> earnPts v = Num q
               \<and> Fnum (p + q) = Num (p + q)
         \<longrightarrow> balances (snd (issuePoints now fmt s v)) (selected s) = Some (Num (p + q)))
    \<and> (is_fin (js_add (or_zero (balances s (selected s))) (earnPts v))
         \<longrightarrow> \<bar>val (js_add (or_zero (balances s (selected s))) (earnPts v))
                - (val (or_zero (balances s (selected s))) + val (earnPts v))\<bar>
             \<le> \<bar>val (or_zero (balances s (selected s))) + val (earnPts v)\<bar> / 2 ^ 53
                + 1 / 2 ^ 1075)
    \<and> id' (activeProgram v) = selected s \<and> activeProgram v \<in> set (programs s)
    \<and> earnValueUsd v = js_div (js_mul (purchaseUsd s) (earnRatePct (activeProgram v))) (Num 100)
    \<and> earnPts v = js_div (math_round (js_mul (js_mul (earnValueUsd v)
                      (js_div (Num 100) (fixedCentsPerPoint (activeProgram v)))) (Num 100))) (Num 100)
    \<and> (\<forall>q. js_mul (js_mul (earnValueUsd v)
                (js_div (Num 100) (fixedCentsPerPoint (activeProgram v)))) (Num 100) = Num q
         \<longrightarrow> earnPts v = js_div (if q < 0 \<and> - (1 / 2) \<le> q then NegZero
                                   else Num (of_int \<lfloor>q + 1 / 2\<rfloor>)) (Num 100))
    \<and> (fixedCentsPerPoint (activeProgram v) = Num 100 \<and> earnRatePct (activeProgram v) = Num 5
         \<and> purchaseUsd s = Num 120 \<and> or_zero (balances s (selected s)) = Num 0
       \<longrightarrow> balances (snd (issuePoints now fmt s v)) (selected s) = Some (Num 6)
         \<and> amountPts (hd (ledger (snd (issuePoints now fmt s v)))) = Num 6
         \<and> amountUsd (hd (ledger (snd (issuePoints now fmt s v)))) = Num 6)"
proof -
  have nle: "\<not> js_le (purchaseUsd s) (Num 0)"
    using assms(2) by (auto simp: js_le_def js_gt_def js_lessThan_def split: if_splits)
  have ip: "issuePoints now fmt s v =
      (None, s\<lparr>balances := (balances s)(selected s \<mapsto> js_add (or_zero (balances s (selected s))) (earnPts v)),
               ledger := \<lparr>ts = now, type' = ISSUE, programId = selected s, amountPts = earnPts v,
                 amountUsd = earnValueUsd v, note' = Some (''Purchase '' @ fmt (purchaseUsd s))\<rparr> # ledger s\<rparr>)"
    using assms(1) nle by (simp add: issuePoints_def Let_def)
  note r = render_Inr [OF assms(3)]
  have act: "id' (activeProgram v) = selected s \<and> activeProgram v \<in> set (programs s)"
    using find_active [OF r(1)] .
  have ev: "earnValueUsd v = js_div (js_mul (purchaseUsd s) (earnRatePct (activeProgram v))) (Num 100)"
    by (rule r(3))
  have ep: "earnPts v = js_div (math_round (js_mul (js_mul (earnValueUsd v)
                      (js_div (Num 100) (fixedCentsPerPoint (activeProgram v)))) (Num 100))) (Num 100)"
    using r(5) r(4) by simp
  have sc: "balances (snd (issuePoints now fmt s v)) (selected s) = Some (Num 6)
         \<and> amountPts (hd (ledger (snd (issuePoints now fmt s v)))) = Num 6
         \<and> amountUsd (hd (ledger (snd (issuePoints now fmt s v)))) = Num 6"
    if h: "fixedCentsPerPoint (activeProgram v) = Num 100 \<and> earnRatePct (activeProgram v) = Num 5
         \<and> purchaseUsd s = Num 120 \<and> or_zero (balances s (selected s)) = Num 0"
  proof -
    have u: "earnValueUsd v = Num 6" using h ev by (simp add: scen1)
    have p: "earnPts v = Num 6" using h ep u by (simp add: scen2 scen3)
    show ?thesis using h by (simp add: ip u p scen4)
  qed
  have b: "balances (snd (issuePoints now fmt s v))
        = (balances s)(selected s \<mapsto> js_add (or_zero (balances s (selected s))) (earnPts v))"
    by (simp add: ip)
  have l: "ledger (snd (issuePoints now fmt s v))
        = \<lparr>ts = now, type' = ISSUE, programId = selected s, amountPts = earnPts v,
           amountUsd = earnValueUsd v, note' = Some (''Purchase '' @ fmt (purchaseUsd s))\<rparr>
          # ledger s"
    by (simp add: ip)
  have f: "fst (issuePoints now fmt s v) = None" by (simp add: ip)
  have d0: "balances s (selected s) = None
         \<longrightarrow> balances (snd (issuePoints now fmt s v)) (selected s)
             = Some (js_add (Num 0) (earnPts v))"
    by (simp add: ip)
  have d1: "\<forall>b. balances s (selected s) = Some b \<and> to_boolean b
         \<longrightarrow> balances (snd (issuePoints now fmt s v)) (selected s)
             = Some (js_add b (earnPts v))"
    by (simp add: ip)
  have x0: "or_zero (balances s (selected s)) = Num 0 \<and> earnPts v \<noteq> NegZero
         \<longrightarrow> balances (snd (issuePoints now fmt s v)) (selected s) = Some (earnPts v)"
  proof
    assume h: "or_zero (balances s (selected s)) = Num 0 \<and> earnPts v \<noteq> NegZero"
    have dbl: "Fnum r = Num r" if "earnPts v = Num r" for r
      using that ep js_div_double by metis
    from h have "earnPts v \<noteq> NegZero" by simp
    then have "js_add (Num 0) (earnPts v) = earnPts v" using dbl by (rule add_zero_left)
    then show "balances (snd (issuePoints now fmt s v)) (selected s) = Some (earnPts v)"
      using h by (simp add: ip)
  qed
  have x1: "\<forall>p q. or_zero (balances s (selected s)) = Num p \<and> earnPts v = Num q
               \<and> Fnum (p + q) = Num (p + q)
         \<longrightarrow> balances (snd (issuePoints now fmt s v)) (selected s) = Some (Num (p + q))"
    by (simp add: ip add_Num)
  have x2: "is_fin (js_add (or_zero (balances s (selected s))) (earnPts v))
         \<longrightarrow> \<bar>val (js_add (or_zero (balances s (selected s))) (earnPts v))
                - (val (or_zero (balances s (selected s))) + val (earnPts v))\<bar>
             \<le> \<bar>val (or_zero (balances s (selected s))) + val (earnPts v)\<bar> / 2 ^ 53
                + 1 / 2 ^ 1075"
    using add_err by blast
  have rd: "\<forall>q. js_mul (js_mul (earnValueUsd v)
                (js_div (Num 100) (fixedCentsPerPoint (activeProgram v)))) (Num 100) = Num q
         \<longrightarrow> earnPts v = js_div (if q < 0 \<and> - (1 / 2) \<le> q then NegZero
                                   else Num (of_int \<lfloor>q + 1 / 2\<rfloor>)) (Num 100)"
  proof (intro allI impI)
    fix q
    assume "js_mul (js_mul (earnValueUsd v)
                (js_div (Num 100) (fixedCentsPerPoint (activeProgram v)))) (Num 100) = Num q"
    with ep have "earnPts v = js_div (math_round (Num q)) (Num 100)" by simp
    then show "earnPts v = js_div (if q < 0 \<and> - (1 / 2) \<le> q then NegZero
                                   else Num (of_int \<lfloor>q + 1 / 2\<rfloor>)) (Num 100)"
      by (simp only: round_Num)
  qed
  from f b l d0 d1 x0 x1 x2 act ev ep rd sc show ?thesis by blast
qed

theorem issuePoints_credits_witness:
  "wallet demo_state \<noteq> None \<and> js_gt (purchaseUsd demo_state) (Num 0)
   \<and> render demo_state = Inr demo_view
   \<and> balances (snd (issuePoints 1730000000000 (\<lambda>x. ''$120.00'') demo_state demo_view)) ''p1''
       = Some (Num 6)
   \<and> map amountPts (ledger (snd (issuePoints 1730000000000 (\<lambda>x. ''$120.00'') demo_state demo_view)))
       = [Num 6]
   \<and> map amountUsd (ledger (snd (issuePoints 1730000000000 (\<lambda>x. ''$120.00'') demo_state demo_view)))
       = [Num 6]
   \<and> wallet thirty_cents \<noteq> None \<and> js_gt (purchaseUsd thirty_cents) (Num 0)
   \<and> render thirty_cents = Inr thirty_view
   \<and> earnPts thirty_view = js_div (Num 2) (Num 100)
   \<and> balances (snd (issuePoints 1730000000000 usd thirty_cents thirty_view)) ''p1''
       = Some (Num (5764607523034235 / 288230376151711744))"
proof -
  have w: "wallet demo_state \<noteq> None" by (simp add: demo_state_def mockConnect_def)
  have p: "js_gt (purchaseUsd demo_state) (Num 0)"
    by (simp add: demo_state_def mockConnect_def initial_def gt_120)
  have sel: "selected demo_state = ''p1''" "ledger demo_state = []" "balances demo_state = Map.empty"
    by (simp_all add: demo_state_def mockConnect_def initial_def DEMO_PROGRAMS_def)
  have e: "earnPts demo_view = Num 6" "earnValueUsd demo_view = Num 6"
    by (simp_all add: demo_view_def)
  have w': "wallet thirty_cents \<noteq> None" using w by (simp add: thirty_cents_def)
  have p': "js_gt (purchaseUsd thirty_cents) (Num 0)" by (simp add: thirty_cents_def thirty8)
  have sel': "selected thirty_cents = ''p1''" "balances thirty_cents = Map.empty"
    by (simp_all add: thirty_cents_def sel)
  have e': "earnValueUsd thirty_view = Num (1080863910568919 / 72057594037927936)"
    "fixedCentsPerPoint (activeProgram thirty_view) = Num 100"
    by (simp_all add: thirty_view_def DEMO_PROGRAMS_def)
  have a: "balances (snd (issuePoints 1730000000000 (\<lambda>x. ''$120.00'') demo_state demo_view)) ''p1''
       = Some (Num 6)
   \<and> map amountPts (ledger (snd (issuePoints 1730000000000 (\<lambda>x. ''$120.00'') demo_state demo_view)))
       = [Num 6]
   \<and> map amountUsd (ledger (snd (issuePoints 1730000000000 (\<lambda>x. ''$120.00'') demo_state demo_view)))
       = [Num 6]"
    using issuePoints_credits [OF w p render_demo, where now = 1730000000000
          and fmt = "\<lambda>x. ''$120.00''"]
    by (simp add: sel e scen4)
  have b: "earnPts thirty_view = js_div (Num 2) (Num 100)
   \<and> balances (snd (issuePoints 1730000000000 usd thirty_cents thirty_view)) ''p1''
       = Some (Num (5764607523034235 / 288230376151711744))"
    using issuePoints_credits [OF w' p' render_thirty, where now = 1730000000000 and fmt = usd]
    by (simp add: sel' e' thirty5 thirty6 thirty7)
  from a b w p render_demo w' p' render_thirty show ?thesis by blast
qed

section \<open>Rejected calls\<close>

text \<open>
  Claim C2.  An \<^verbatim>\<open>issuePoints\<close> call without a connected wallet or with a purchase amount
  \<open>\<le> 0\<close>, and a \<^verbatim>\<open>redeem\<close> call without a connected wallet, with an amount
  \<open>\<le> 0\<close> or with an amount above the balance of the selected program, shows an alert and
  leaves the whole state, so the balances and the ledger, as it was.  Every call either
  returns the state unchanged or applies both of its updates.
\<close>

theorem rejected_calls_change_nothing:
  assumes "render s = Inr v"
  shows "(wallet s = None \<or> js_le (purchaseUsd s) (Num 0)
            \<longrightarrow> snd (issuePoints now fmt s v) = s \<and> fst (issuePoints now fmt s v) \<noteq> None)
       \<and> (wallet s = None \<or> js_le amount (Num 0) \<or> js_gt amount (or_zero (balances s (selected s)))
            \<longrightarrow> snd (redeem now s v amount) = s \<and> fst (redeem now s v amount) \<noteq> None)
       \<and> (snd (issuePoints now fmt s v) = s
          \<or> snd (issuePoints now fmt s v)
             = s\<lparr>balances := (balances s)(selected s \<mapsto>
                     js_add (or_zero (balances s (selected s))) (earnPts v)),
                  ledger := \<lparr>ts = now, type' = ISSUE, programId = selected s, amountPts = earnPts v,
                     amountUsd = earnValueUsd v,
                     note' = Some (''Purchase '' @ fmt (purchaseUsd s))\<rparr> # ledger s\<rparr>)
       \<and> (snd (redeem now s v amount) = s
          \<or> snd (redeem now s v amount)
             = s\<lparr>balances := (balances s)(selected s \<mapsto>
                     js_sub (or_zero (balances s (selected s))) amount),
                  ledger := \<lparr>ts = now, type' = REDEEM, programId = selected s, amountPts = amount,
                     amountUsd = js_div amount (ptsPerDollar v),
                     note' = Some ''Checkout (gift card / bill credit)''\<rparr> # ledger s\<rparr>)"
proof -
  have ab: "activeBalance v = or_zero (balances s (selected s))"
    using render_Inr(2) [OF assms] .
  show ?thesis
    by (simp add: issuePoints_def redeem_def Let_def ab)
qed

theorem rejected_calls_change_nothing_witness:
  "render initial = Inr demo_view \<and> wallet initial = None
   \<and> snd (issuePoints 1730000000000 (\<lambda>x. ''$120.00'') initial demo_view) = initial
   \<and> snd (redeem 1730000000000 initial demo_view (Num 1)) = initial
   \<and> render demo_state = Inr demo_view
   \<and> js_gt (Num 1) (or_zero (balances demo_state (selected demo_state)))
   \<and> snd (redeem 1730000000000 demo_state demo_view (Num 1)) = demo_state
   \<and> js_le (Num 0) (Num 0)
   \<and> snd (redeem 1730000000000 demo_state demo_view (Num 0)) = demo_state"
proof -
  have w: "wallet initial = None" by (simp add: initial_def)
  have g: "js_gt (Num 1) (or_zero (balances demo_state (selected demo_state)))"
    by (simp add: demo_state_def mockConnect_def initial_def js_gt_def js_lessThan_def)
  have z: "js_le (Num 0) (Num 0)" by (simp add: js_le_def js_lessThan_def)
  show ?thesis
    using rejected_calls_change_nothing [OF render_initial, where amount = "Num 1"
          and now = 1730000000000 and fmt = "\<lambda>x. ''$120.00''"]
      rejected_calls_change_nothing [OF render_demo, where amount = "Num 1"
          and now = 1730000000000 and fmt = "\<lambda>x. ''$120.00''"]
      rejected_calls_change_nothing [OF render_demo, where amount = "Num 0"
          and now = 1730000000000 and fmt = "\<lambda>x. ''$120.00''"]
      w g z render_initial render_demo
    by simp
qed

section \<open>Redeeming points\<close>

text \<open>
  Claim C3, as stated: a redemption of \<open>p\<close> points decreases the balance of the selected
  program by exactly \<open>p\<close>.  The balance is a double, and \<^verbatim>\<open>redeem\<close> stores the difference of
  doubles \<^verbatim>\<open>activeBalance - amount\<close>.  In the session that has issued 6 points to the first
  seed program, a redemption of the double 0.1 leaves the balance at the double 5.9, and 6
  less 5.9 is not the double 0.1.
\<close>

theorem redeem_stores_rounded_difference:
  "wallet issued_state \<noteq> None \<and> render issued_state = Inr issued_view
   \<and> balances issued_state (selected issued_state) = Some (Num 6)
   \<and> js_gt (Num (3602879701896397 / 36028797018963968)) (Num 0)
   \<and> js_le (Num (3602879701896397 / 36028797018963968)) (Num 6)
   \<and> fst (redeem 1730000060000 issued_state issued_view
        (Num (3602879701896397 / 36028797018963968))) = None
   \<and> balances (snd (redeem 1730000060000 issued_state issued_view
        (Num (3602879701896397 / 36028797018963968)))) (selected issued_state)
       = Some (Num (3321404725185741 / 562949953421312))
   \<and> 6 - (3321404725185741 / 562949953421312 :: rat) \<noteq> 3602879701896397 / 36028797018963968"
  using render_issued wallet_issued
  by (simp add: issued_fields tenth6 issued_view_def demo_view_def redeem_def js_le_def js_gt_def
      js_lessThan_def Let_def tenth4)

text \<open>
  Claim C3, as amended.  With a wallet connected and an amount \<open>p\<close> with \<open>0 < p\<close> and
  \<open>p \<le> b\<close>, where \<open>b\<close> is the balance of the selected program, \<^verbatim>\<open>redeem\<close> shows no
  alert, sets that balance to the double nearest to \<open>b - p\<close> and puts exactly one REDEEM row
  in front of the ledger, with \<^verbatim>\<open>amountPts = p\<close> and
  \<^verbatim>\<open>amountUsd = p / (100 / fixedCentsPerPoint)\<close>.  The decrease is exactly \<open>p\<close> whenever the
  exact difference is a double (as when the whole balance is redeemed); in every case where
  the new balance is finite it differs from the exact difference by at most the relative
  error \<open>2\<^sup>-\<^sup>5\<^sup>3\<close> plus \<open>2\<^sup>-\<^sup>1\<^sup>0\<^sup>7\<^sup>5\<close>.
\<close>

theorem redeem_debits:
  assumes "wallet s \<noteq> None" and "render s = Inr v" and "balances s (selected s) = Some b"
    and "js_gt amount (Num 0)" and "js_le amount b"
  shows "fst (redeem now s v amount) = None
    \<and> balances (snd (redeem now s v amount)) = (balances s)(selected s \<mapsto> js_sub b amount)
    \<and> ledger (snd (redeem now s v amount))
        = \<lparr>ts = now, type' = REDEEM, programId = selected s, amountPts = amount,
           amountUsd = js_div amount (js_div (Num 100) (fixedCentsPerPoint (activeProgram v))),
           note' = Some ''Checkout (gift card / bill credit)''\<rparr>
          # ledger s
    \<and> id' (activeProgram v) = selected s \<and> activeProgram v \<in> set (programs s)
    \<and> (\<forall>p q. b = Num p \<and> amount = Num q \<and> Fnum (p - q) = Num (p - q)
         \<longrightarrow> balances (snd (redeem now s v amount)) (selected s) = Some (Num (p - q)))
    \<and> (is_fin (js_sub b amount)
         \<longrightarrow> \<bar>val (js_sub b amount) - (val b - val amount)\<bar>
             \<le> \<bar>val b - val amount\<bar> / 2 ^ 53 + 1 / 2 ^ 1075)"
proof -
  note r = render_Inr [OF assms(2)]
  have ab: "activeBalance v = b" using r(2) assms(3) positive_le(1) [OF assms(4,5)] by simp
  have g: "\<not> js_gt amount (activeBalance v)" "\<not> js_le amount (Num 0)"
    using positive_le(2,3) [OF assms(4,5)] ab by simp_all
  have rd: "redeem now s v amount =
      (None, s\<lparr>balances := (balances s)(selected s \<mapsto> js_sub b amount),
               ledger := \<lparr>ts = now, type' = REDEEM, programId = selected s, amountPts = amount,
                 amountUsd = js_div amount (js_div (Num 100) (fixedCentsPerPoint (activeProgram v))),
                 note' = Some ''Checkout (gift card / bill credit)''\<rparr> # ledger s\<rparr>)"
    using assms(1) g by (simp add: redeem_def Let_def ab r(4))
  have x1: "\<forall>p q. b = Num p \<and> amount = Num q \<and> Fnum (p - q) = Num (p - q)
         \<longrightarrow> balances (snd (redeem now s v amount)) (selected s) = Some (Num (p - q))"
  proof (intro allI impI)
    fix p q
    assume h: "b = Num p \<and> amount = Num q \<and> Fnum (p - q) = Num (p - q)"
    then have "js_gt (Num q) (Num 0)" using assms(4) by simp
    then have "js_sub (Num p) (Num q) = Fnum (p - q)" by (rule sub_Num)
    then have "js_sub b amount = Num (p - q)" using h by simp
    then show "balances (snd (redeem now s v amount)) (selected s) = Some (Num (p - q))"
      by (simp add: rd)
  qed
  have x2: "is_fin (js_sub b amount)
         \<longrightarrow> \<bar>val (js_sub b amount) - (val b - val amount)\<bar>
             \<le> \<bar>val b - val amount\<bar> / 2 ^ 53 + 1 / 2 ^ 1075"
    using sub_err by blast
  have x0: "fst (redeem now s v amount) = None
    \<and> balances (snd (redeem now s v amount)) = (balances s)(selected s \<mapsto> js_sub b amount)
    \<and> ledger (snd (redeem now s v amount))
        = \<lparr>ts = now, type' = REDEEM, programId = selected s, amountPts = amount,
           amountUsd = js_div amount (js_div (Num 100) (fixedCentsPerPoint (activeProgram v))),
           note' = Some ''Checkout (gift card / bill credit)''\<rparr>
          # ledger s
    \<and> id' (activeProgram v) = selected s \<and> activeProgram v \<in> set (programs s)"
    using find_active [OF r(1)] by (simp add: rd)
  from x0 x1 x2 show ?thesis by blast
qed

theorem redeem_debits_witness:
  "wallet issued_state \<noteq> None \<and> render issued_state = Inr issued_view
   \<and> balances issued_state (selected issued_state) = Some (Num 6)
   \<and> js_gt (Num 6) (Num 0) \<and> js_le (Num 6) (Num 6)
   \<and> fst (redeem 1730000060000 issued_state issued_view (Num 6)) = None
   \<and> balances (snd (redeem 1730000060000 issued_state issued_view (Num 6))) ''p1'' = Some (Num 0)
   \<and> map type' (ledger (snd (redeem 1730000060000 issued_state issued_view (Num 6))))
       = [REDEEM, ISSUE]
   \<and> map amountUsd (ledger (snd (redeem 1730000060000 issued_state issued_view (Num 6))))
       = [Num 6, Num 6]"
proof -
  have w: "wallet issued_state \<noteq> None"
    by (simp add: issued_state_def wallet_demo issuePoints_def gt_120 purchase_demo js_le_def
        js_lessThan_def Let_def)
  have b: "balances issued_state (selected issued_state) = Some (Num 6)"
    using issued_fields by simp
  have g: "js_gt (Num 6) (Num 0)" and l: "js_le (Num 6) (Num 6)"
    by (simp_all add: js_gt_def js_le_def js_lessThan_def)
  have c: "fixedCentsPerPoint (activeProgram issued_view) = Num 100"
    by (simp add: issued_view_def demo_view_def DEMO_PROGRAMS_def)
  have "fst (redeem 1730000060000 issued_state issued_view (Num 6)) = None
   \<and> balances (snd (redeem 1730000060000 issued_state issued_view (Num 6))) ''p1'' = Some (Num 0)
   \<and> map type' (ledger (snd (redeem 1730000060000 issued_state issued_view (Num 6))))
       = [REDEEM, ISSUE]
   \<and> map amountUsd (ledger (snd (redeem 1730000060000 issued_state issued_view (Num 6))))
       = [Num 6, Num 6]"
    using redeem_debits [OF w render_issued b g l, where now = 1730000060000]
    by (simp add: issued_fields c scen2 scen5 scen6)
  with w render_issued b g l show ?thesis by blast
qed

section \<open>Issue, then redeem\<close>

text \<open>
  Claim C5, as stated: from a balance of 0, an issue of \<open>pts1\<close> followed by a redemption of
  \<open>pts2\<close> with \<open>0 < pts2 \<le> pts1\<close> leaves the balance equal to \<open>pts1 - pts2\<close>.  The
  balance is a double, and the redemption stores the difference of doubles.  From the
  connected page, a click on Issue credits \<open>pts1 = 6\<close>, and a redemption of the double 0.1
  then leaves the double 5.9, which is not 6 less the double 0.1.
\<close>

theorem issue_then_redeem_is_rounded:
  "wallet demo_state \<noteq> None \<and> render demo_state = Inr demo_view
   \<and> or_zero (balances demo_state (selected demo_state)) = Num 0
   \<and> js_gt (purchaseUsd demo_state) (Num 0)
   \<and> earnPts demo_view = Num 6
   \<and> js_gt (Num (3602879701896397 / 36028797018963968)) (Num 0)
   \<and> js_le (Num (3602879701896397 / 36028797018963968)) (earnPts demo_view)
   \<and> run usd demo_state [Issue 1730000000000] = Some issued_state
   \<and> balances issued_state (selected demo_state) = Some (Num 6)
   \<and> run usd demo_state
        [Issue 1730000000000, Redeem 1730000060000 (Num (3602879701896397 / 36028797018963968))]
       \<noteq> None
   \<and> balances (the (run usd demo_state
        [Issue 1730000000000, Redeem 1730000060000 (Num (3602879701896397 / 36028797018963968))]))
        (selected demo_state) = Some (Num (3321404725185741 / 562949953421312))
   \<and> (3321404725185741 / 562949953421312 :: rat) \<noteq> 6 - 3602879701896397 / 36028797018963968"
proof -
  have z: "or_zero (balances demo_state (selected demo_state)) = Num 0"
    by (simp add: demo_state_def mockConnect_def initial_def)
  have p: "js_gt (purchaseUsd demo_state) (Num 0)"
    by (simp add: purchase_demo gt_120)
  have sel: "selected demo_state = ''p1''"
    by (simp add: demo_state_def mockConnect_def initial_def DEMO_PROGRAMS_def)
  have e: "earnPts demo_view = Num 6" by (simp add: demo_view_def)
  have s1: "step usd demo_state (Issue 1730000000000) = Some issued_state"
    using render_demo by (simp add: issued_state_def issuePoints_def usd_def)
  have r: "balances (snd (redeem 1730000060000 issued_state issued_view
        (Num (3602879701896397 / 36028797018963968)))) ''p1''
       = Some (Num (3321404725185741 / 562949953421312))"
    using wallet_issued
    by (simp add: issued_fields tenth6 issued_view_def demo_view_def redeem_def js_le_def
        js_gt_def js_lessThan_def Let_def tenth4)
  have s2: "step usd issued_state
        (Redeem 1730000060000 (Num (3602879701896397 / 36028797018963968)))
      = Some (snd (redeem 1730000060000 issued_state issued_view
          (Num (3602879701896397 / 36028797018963968))))"
    using render_issued by simp
  have r1: "run usd demo_state [Issue 1730000000000] = Some issued_state"
    using s1 by (simp del: step.simps)
  have r2: "run usd demo_state
        [Issue 1730000000000, Redeem 1730000060000 (Num (3602879701896397 / 36028797018963968))]
      = Some (snd (redeem 1730000060000 issued_state issued_view
          (Num (3602879701896397 / 36028797018963968))))"
    using s1 s2 by (simp del: step.simps)
  have n: "(3321404725185741 / 562949953421312 :: rat) \<noteq> 6 - 3602879701896397 / 36028797018963968"
    by simp
  show ?thesis
    using wallet_demo render_demo z p n
    by (simp add: r1 r2 sel e r issued_fields tenth6 del: run.simps)
qed

text \<open>
  Claim C5, as amended.  With a wallet connected, a purchase amount above 0 and a balance of
  the selected program that reads as 0, a click on Issue credits \<open>pts1 = earnPts\<close> and
  leaves the balance \<open>pts1\<close>; a redemption of \<open>pts2\<close> with \<open>0 < pts2\<close> and \<open>pts2 \<le> pts1\<close>
  that follows leaves the balance at the double nearest to \<open>pts1 - pts2\<close>.  That is exactly
  \<open>pts1 - pts2\<close> whenever the exact difference is a double; in every case where it is finite
  it differs from the exact difference by at most the relative error \<open>2\<^sup>-\<^sup>5\<^sup>3\<close> plus
  \<open>2\<^sup>-\<^sup>1\<^sup>0\<^sup>7\<^sup>5\<close>.
\<close>

theorem issue_then_redeem_balance:
  assumes "wallet s \<noteq> None" and "render s = Inr v"
    and "or_zero (balances s (selected s)) = Num 0"
    and "js_gt (purchaseUsd s) (Num 0)"
    and "js_gt pts2 (Num 0)" and "js_le pts2 (earnPts v)"
  shows "map_option (\<lambda>s'. balances s' (selected s)) (run fmt s [Issue now])
           = Some (Some (earnPts v))
       \<and> map_option (\<lambda>s'. balances s' (selected s)) (run fmt s [Issue now, Redeem now' pts2])
           = Some (Some (js_sub (earnPts v) pts2))
       \<and> (\<forall>p q. earnPts v = Num p \<and> pts2 = Num q \<and> Fnum (p - q) = Num (p - q)
            \<longrightarrow> map_option (\<lambda>s'. balances s' (selected s))
                  (run fmt s [Issue now, Redeem now' pts2]) = Some (Some (Num (p - q))))
       \<and> (is_fin (js_sub (earnPts v) pts2)
            \<longrightarrow> \<bar>val (js_sub (earnPts v) pts2) - (val (earnPts v) - val pts2)\<bar>
                \<le> \<bar>val (earnPts v) - val pts2\<bar> / 2 ^ 53 + 1 / 2 ^ 1075)"
proof -
  define pts1 where "pts1 = earnPts v"
  define row where "row = \<lparr>ts = now, type' = ISSUE, programId = selected s, amountPts = pts1,
      amountUsd = earnValueUsd v, note' = Some (''Purchase '' @ fmt (purchaseUsd s))\<rparr>"
  define s1 where "s1 = s\<lparr>balances := (balances s)(selected s \<mapsto> pts1), ledger := row # ledger s\<rparr>"
  define v1 where "v1 = v\<lparr>activeBalance := pts1\<rparr>"
  have le: "js_le pts2 pts1" using assms(6) by (simp add: pts1_def)
  note pl = positive_le [OF assms(5) le]
  have nz: "pts1 \<noteq> NegZero" using pl(1) by auto
  have "pts1 = js_div (math_round (js_mul (js_mul (earnValueUsd v) (ptsPerDollar v)) (Num 100))) (Num 100)"
    using render_Inr(5) [OF assms(2)] by (simp add: pts1_def)
  then have dbl: "Fnum r = Num r" if "pts1 = Num r" for r
    using that js_div_double by metis
  have add: "js_add (Num 0) pts1 = pts1" using nz dbl by (rule add_zero_left)
  have nle: "\<not> js_le (purchaseUsd s) (Num 0)"
    using assms(4) by (auto simp: js_le_def js_gt_def)
  have ip: "snd (issuePoints now fmt s v) = s1"
    using assms(3) nle
    by (simp add: issuePoints_def Let_def s1_def row_def pts1_def [symmetric] add assms(1))
  have st1: "step fmt s (Issue now) = Some s1"
    using assms(2) ip by simp
  have r1: "render s1 = Inr v1"
    using render_after_balances [OF assms(2), of s1] pl(1) by (simp add: s1_def v1_def)
  have rd: "balances (snd (redeem now' s1 v1 pts2)) (selected s) = Some (js_sub pts1 pts2)"
    using pl(2,3) by (simp add: redeem_def Let_def s1_def v1_def assms(1))
  have st2: "step fmt s1 (Redeem now' pts2) = Some (snd (redeem now' s1 v1 pts2))"
    using r1 by simp
  have b1: "balances s1 (selected s) = Some pts1" by (simp add: s1_def)
  have x0: "map_option (\<lambda>s'. balances s' (selected s)) (run fmt s [Issue now])
           = Some (Some (earnPts v))"
    using st1 b1 by (simp add: pts1_def del: step.simps)
  have x1: "map_option (\<lambda>s'. balances s' (selected s)) (run fmt s [Issue now, Redeem now' pts2])
           = Some (Some (js_sub (earnPts v) pts2))"
    using st1 st2 rd by (simp add: pts1_def del: step.simps)
  have x2: "\<forall>p q. earnPts v = Num p \<and> pts2 = Num q \<and> Fnum (p - q) = Num (p - q)
            \<longrightarrow> map_option (\<lambda>s'. balances s' (selected s))
                  (run fmt s [Issue now, Redeem now' pts2]) = Some (Some (Num (p - q)))"
  proof (intro allI impI)
    fix p q
    assume h: "earnPts v = Num p \<and> pts2 = Num q \<and> Fnum (p - q) = Num (p - q)"
    then have "js_gt (Num q) (Num 0)" using assms(5) by simp
    then have "js_sub (Num p) (Num q) = Fnum (p - q)" by (rule sub_Num)
    then have "js_sub (earnPts v) pts2 = Num (p - q)" using h by simp
    then show "map_option (\<lambda>s'. balances s' (selected s))
        (run fmt s [Issue now, Redeem now' pts2]) = Some (Some (Num (p - q)))"
      by (simp only: x1)
  qed
  have x3: "is_fin (js_sub (earnPts v) pts2)
            \<longrightarrow> \<bar>val (js_sub (earnPts v) pts2) - (val (earnPts v) - val pts2)\<bar>
                \<le> \<bar>val (earnPts v) - val pts2\<bar> / 2 ^ 53 + 1 / 2 ^ 1075"
    using sub_err by blast
  from x0 x1 x2 x3 show ?thesis by blast
qed

theorem issue_then_redeem_balance_witness:
  "wallet demo_state \<noteq> None \<and> render demo_state = Inr demo_view
   \<and> or_zero (balances demo_state (selected demo_state)) = Num 0
   \<and> js_gt (purchaseUsd demo_state) (Num 0)
   \<and> js_gt (Num 2) (Num 0) \<and> js_le (Num 2) (earnPts demo_view)
   \<and> map_option (\<lambda>s'. balances s' ''p1'')
        (run usd demo_state [Issue 1730000000000, Redeem 1730000060000 (Num 2)])
       = Some (Some (Num 4))"
proof -
  have z: "or_zero (balances demo_state (selected demo_state)) = Num 0"
    by (simp add: demo_state_def mockConnect_def initial_def)
  have p: "js_gt (purchaseUsd demo_state) (Num 0)"
    by (simp add: purchase_demo gt_120)
  have g: "js_gt (Num 2) (Num 0)" and l: "js_le (Num 2) (earnPts demo_view)"
    by (simp_all add: demo_view_def js_gt_def js_le_def js_lessThan_def)
  have sel: "selected demo_state = ''p1''"
    by (simp add: demo_state_def mockConnect_def initial_def DEMO_PROGRAMS_def)
  have e: "earnPts demo_view = Num 6" by (simp add: demo_view_def)
  have "map_option (\<lambda>s'. balances s' ''p1'')
        (run usd demo_state [Issue 1730000000000, Redeem 1730000060000 (Num 2)])
       = Some (Some (Num 4))"
    using issue_then_redeem_balance [OF wallet_demo render_demo z p g l, where fmt = usd
        and now = 1730000000000 and now' = 1730000060000]
    by (simp add: sel e scen7 del: run.simps)
  with wallet_demo render_demo z p g l show ?thesis by blast
qed

section \<open>The sign of the balances\<close>

subsection \<open>Plain actions keep the balances non-negative\<close>

text \<open>
  When every number entered is finite and the cents of every created program are a double,
  no operation of the page produces NaN or a negative value: products and quotients of
  non-negative doubles are non-negative, \<^verbatim>\<open>100 / cents\<close> is above zero and finite, and
  a redemption that passes its guards subtracts a positive amount that is not above the
  balance.
\<close>

lemma nn_cases: "nn x \<Longrightarrow> x = PosInf \<or> (\<exists>q. x = Num q \<and> 0 \<le> q)"
  by (cases x) simp_all

lemma pos_nn: "pos x \<Longrightarrow> nn x"
  by (cases x) simp_all

lemma nn_le: "nn x \<Longrightarrow> js_le (Num 0) x"
  by (cases x) (auto simp: js_le_def js_lessThan_def)

lemma nn_or_zero:
  "(\<And>x. b = Some x \<Longrightarrow> nn x) \<Longrightarrow> nn (or_zero b)"
  by (cases b) auto

lemma nn_mul:
  assumes "nn a" and "nn b" and "a = PosInf \<longrightarrow> pos b" and "b = PosInf \<longrightarrow> pos a"
  shows "nn (js_mul a b)"
  using assms
  by (cases a; cases b)
     (auto simp: js_mul_def signed_inf_def signed_zero_def intro!: Fnum_nn)

lemma nn_div_pos:
  assumes "nn a" and "0 < q"
  shows "nn (js_div a (Num q))"
  using assms
  by (cases a) (auto simp: js_div_def signed_inf_def signed_zero_def intro!: Fnum_nn)

lemma nn_round: "nn a \<Longrightarrow> nn (math_round a)"
  by (cases a) auto

lemma nn_add: "nn a \<Longrightarrow> nn b \<Longrightarrow> nn (js_add a b)"
  by (cases a; cases b) (auto simp: js_add_def intro!: Fnum_nn)

lemma nn_sub:
  assumes "nn b" and "0 < q" and "\<not> js_gt (Num q) b"
  shows "nn (js_sub b (Num q))"
  using assms
  by (cases b) (auto simp: js_sub_def js_add_def js_gt_def js_lessThan_def intro!: Fnum_nn
      split: if_splits)

lemma good_cents:
  assumes "is_dbl c" and "js_le (Num 1) c"
  shows "pos (js_div (Num 100) c) \<and> js_div (Num 100) c \<noteq> PosInf"
proof -
  from assms obtain q where c: "c = Num q" and q1: "1 \<le> q" and d: "Fnum q = Num q"
    by (cases c) (auto simp: js_le_def js_lessThan_def split: if_splits)
  from Fnum_bounded [OF d] q1 have qlt: "q < 2 powi 1024" by simp
  have qpos: "0 < q" using q1 by simp
  have "2 powi (- 1074) * q \<le> 2 powi (- 1074) * 2 powi 1024"
    using qlt by (intro mult_left_mono) simp_all
  also have "\<dots> = 2 powi (- 50)" by (simp flip: power_int_add)
  also have "\<dots> \<le> 100" by (simp add: power_int_minus)
  finally have "2 powi (- 1074) \<le> 100 / q" using qpos by (simp add: le_divide_eq)
  then have p: "pos (Fnum (100 / q))" by (rule Fnum_pos)
  have "\<bar>100 / q\<bar> \<le> 100" using q1 by (simp add: divide_le_eq)
  moreover have "(100::rat) < 2 powi 1023"
  proof -
    have "(100::rat) < 2 powi 7" by simp
    also have "\<dots> \<le> 2 powi 1023" by (simp only: pow2_le_iff)
    finally show ?thesis .
  qed
  ultimately have "\<bar>100 / q\<bar> < 2 powi 1023" by linarith
  from Fnum_finite [OF this] have f: "Fnum (100 / q) \<noteq> PosInf" by simp
  have "js_div (Num 100) c = Fnum (100 / q)" using qpos by (simp add: c js_div_def)
  with p f show ?thesis by simp
qed

lemma clamp_cents:
  assumes "is_dbl value"
  shows "is_dbl (math_max [Num 1, value]) \<and> js_le (Num 1) (math_max [Num 1, value])"
  using assms
  by (cases "value") (auto simp: math_max_def js_le_def js_gt_def js_lessThan_def Fnum_1)

lemma clamp_rate:
  assumes "is_fin earn"
  shows "nn (math_max [Num 0, earn]) \<and> is_fin (math_max [Num 0, earn])"
  using assms
  by (cases earn) (auto simp: math_max_def js_gt_def js_lessThan_def)

lemma positive_purchase:
  assumes "is_fin x" and "\<not> js_le x (Num 0)"
  obtains q where "x = Num q" "0 < q"
  using assms by (cases x) (auto simp: js_le_def js_lessThan_def split: if_splits)

lemma earned_points_nn:
  assumes v: "render s = Inr v" and ok: "balances_ok s" and g: "\<not> js_le (purchaseUsd s) (Num 0)"
  shows "nn (earnPts v)"
proof -
  note r = render_Inr [OF v]
  define p where "p = activeProgram v"
  have "p \<in> set (programs s)" using find_active [OF r(1)] by (simp add: p_def)
  with ok have gp: "good_program p" by (simp add: balances_ok_def list_all_iff)
  from ok have "is_fin (purchaseUsd s)" by (simp add: balances_ok_def)
  from positive_purchase [OF this g] obtain q where q: "purchaseUsd s = Num q" "0 < q" .
  have rate: "nn (earnRatePct p)" "earnRatePct p \<noteq> PosInf"
    using gp by (auto simp: good_program_def)
  have "nn (js_mul (Num q) (earnRatePct p))"
    using rate q(2) by (intro nn_mul) simp_all
  then have usd: "nn (earnValueUsd v)"
    unfolding r(3) q(1) p_def [symmetric] by (rule nn_div_pos) simp
  have ppd: "pos (ptsPerDollar v)" "ptsPerDollar v \<noteq> PosInf"
    using good_cents [of "fixedCentsPerPoint p"] gp
    by (simp_all add: r(4) p_def [symmetric] good_program_def)
  have "nn (js_mul (earnValueUsd v) (ptsPerDollar v))"
    using usd ppd by (intro nn_mul) (simp_all add: pos_nn)
  then have "nn (js_mul (js_mul (earnValueUsd v) (ptsPerDollar v)) (Num 100))"
    by (rule nn_mul) simp_all
  then have "nn (math_round (js_mul (js_mul (earnValueUsd v) (ptsPerDollar v)) (Num 100)))"
    by (rule nn_round)
  then show ?thesis unfolding r(5) by (rule nn_div_pos) simp
qed

lemma balances_ok_upd:
  assumes "balances_ok s" and "nn b"
  shows "balances_ok (s\<lparr>balances := (balances s)(k \<mapsto> b), ledger := l\<rparr>)"
  using assms by (simp add: balances_ok_def)

lemma active_balance_nn:
  assumes "balances_ok s"
  shows "nn (or_zero (balances s k))"
  using assms by (intro nn_or_zero) (simp add: balances_ok_def)

lemma issue_balances_ok:
  assumes v: "render s = Inr v" and ok: "balances_ok s"
  shows "balances_ok (snd (issuePoints now fmt s v))"
proof (cases "wallet s = None \<or> js_le (purchaseUsd s) (Num 0)")
  case True
  then show ?thesis using ok by (auto simp: issuePoints_def)
next
  case False
  then have g: "\<not> js_le (purchaseUsd s) (Num 0)" and w: "wallet s \<noteq> None" by simp_all
  have "nn (js_add (or_zero (balances s (selected s))) (earnPts v))"
    using active_balance_nn [OF ok] earned_points_nn [OF v ok g] by (rule nn_add)
  from balances_ok_upd [OF ok this] show ?thesis
    by (simp add: issuePoints_def Let_def w g)
qed

lemma redeem_balances_ok:
  assumes v: "render s = Inr v" and ok: "balances_ok s" and a: "is_fin amount"
  shows "balances_ok (snd (redeem now s v amount))"
proof (cases "wallet s = None \<or> js_le amount (Num 0) \<or> js_gt amount (activeBalance v)")
  case True
  then show ?thesis using ok by (auto simp: redeem_def)
next
  case False
  then have g: "\<not> js_le amount (Num 0)" and b: "\<not> js_gt amount (activeBalance v)"
    and w: "wallet s \<noteq> None" by simp_all
  from positive_purchase [OF a g] obtain q where q: "amount = Num q" "0 < q" .
  have "nn (activeBalance v)"
    unfolding render_Inr(2) [OF v] using ok by (rule active_balance_nn)
  then have "nn (js_sub (activeBalance v) amount)"
    unfolding q(1) using q(2) b [unfolded q(1)] by (rule nn_sub)
  from balances_ok_upd [OF ok this] show ?thesis
    by (simp add: redeem_def Let_def w g b)
qed

lemma create_balances_ok:
  assumes ok: "balances_ok s" and "is_dbl value" and "is_fin earn"
  shows "balances_ok (snd (snd (createClick rnd (nm, symbol, value, earn, breakage) s)))"
  using assms clamp_cents [of "value"] clamp_rate [of earn]
  by (simp add: createClick_def addProgram_def balances_ok_def good_program_def Let_def)

lemma reset_balances_ok:
  assumes "balances_ok s"
  shows "balances_ok (resetAll s)"
  using assms
  by (simp add: balances_ok_def resetAll_def DEMO_PROGRAMS_def good_program_def Fnum_100
      js_le_def js_lessThan_def)

lemma set_purchase_fin: "x \<noteq> PosInf \<Longrightarrow> x \<noteq> NegInf \<Longrightarrow> is_fin (or_zero (Some x))"
  by (cases x) simp_all

lemma step_balances_ok:
  assumes "balances_ok s" and "plain ev" and "step fmt s ev = Some s'"
  shows "balances_ok s'"
proof -
  obtain v where v: "render s = Inr v"
    using assms(3) by (cases "render s") auto
  show ?thesis
  proof (cases ev)
    case (Connect n r1 r2)
    with assms v show ?thesis
      by (auto simp: balances_ok_def mockConnect_def Let_def split: if_splits)
  next
    case Disconnect
    with assms v show ?thesis by (auto simp: balances_ok_def split: if_splits)
  next
    case (Select i)
    with assms v show ?thesis by (auto simp: balances_ok_def split: if_splits)
  next
    case (SetPurchase x)
    with assms v set_purchase_fin [of x] show ?thesis by (auto simp: balances_ok_def)
  next
    case (Issue now)
    with assms(3) v issue_balances_ok [OF v assms(1)] show ?thesis by auto
  next
    case (Redeem now amount)
    with assms(2,3) v redeem_balances_ok [OF v assms(1), of amount] show ?thesis by auto
  next
    case (Create rnd f)
    obtain nm symbol "value" earn breakage where f: "f = (nm, symbol, value, earn, breakage)"
      by (cases f)
    with Create assms(2,3) v create_balances_ok [OF assms(1), of "value" earn] show ?thesis by auto
  next
    case Reset
    with assms(3) v reset_balances_ok [OF assms(1)] show ?thesis by auto
  qed
qed

lemma run_balances_ok:
  "balances_ok s \<Longrightarrow> list_all plain evs \<Longrightarrow> run fmt s evs = Some s' \<Longrightarrow> balances_ok s'"
proof (induction evs arbitrary: s)
  case Nil
  then show ?case by simp
next
  case (Cons ev evs)
  from Cons.prems(3) obtain s1 where s1: "step fmt s ev = Some s1" and r: "run fmt s1 evs = Some s'"
    by (auto split: option.splits simp del: step.simps)
  from Cons.prems(2) have p: "plain ev" "list_all plain evs" by simp_all
  from step_balances_ok [OF Cons.prems(1) p(1) s1] have "balances_ok s1" .
  from Cons.IH [OF this p(2) r] show ?case .
qed

lemma balances_ok_initial: "balances_ok initial"
  by (simp add: balances_ok_def initial_def DEMO_PROGRAMS_def good_program_def Fnum_100
      js_le_def js_lessThan_def)

lemma plain_runs_keep_balances_nonnegative:
  assumes "list_all plain evs" and "run fmt initial evs = Some s" and "balances s k = Some b"
  shows "js_le (Num 0) b"
proof -
  have "balances_ok s" using balances_ok_initial assms(1,2) by (rule run_balances_ok)
  with assms(3) have "nn b" by (simp add: balances_ok_def)
  then show ?thesis by (rule nn_le)
qed

text \<open>
  Claim C6.  Every balance of a reachable state is a non-negative quantity of points.  By
  \<open>plain_runs_keep_balances_nonnegative\<close> this holds as long as NaN and the infinities
  stay out.  It fails on the sequence \<open>nan_events\<close>: a program created with NaN cents per point has
  \<^verbatim>\<open>ptsPerDollar = 100 / NaN = NaN\<close>, its earned points are NaN, and a click on Issue with
  the default purchase of 120 stores the balance NaN, for which \<open>0 \<le> NaN\<close> is false.
\<close>

theorem NaN_balance_reached:
  "map_option (\<lambda>s. (selected s, balances s (selected s))) (run usd initial nan_events)
     = Some (''pk3f9x'', Some NaN)
   \<and> \<not> js_le (Num 0) NaN"
  by (simp add: nan_events_def eval_defs nan_ops)

section \<open>Creating a program\<close>

lemma createClick_clamps:
  assumes "nm \<noteq> []" and "symbol \<noteq> []"
    and "value \<noteq> NaN" and "earn \<noteq> NaN" and "breakage \<noteq> NaN"
    and "p = hd (programs (snd (snd (createClick rnd (nm, symbol, value, earn, breakage) s))))"
  shows "js_le (Num 1) (fixedCentsPerPoint p) \<and> js_le (Num 0) (earnRatePct p)
       \<and> js_le (Num 0) (breakagePct p)"
  using assms math_max_clamps [of "value" "Num 1"] math_max_clamps [of earn "Num 0"]
    math_max_clamps [of breakage "Num 0"]
  by (simp add: createClick_def addProgram_def Let_def)

text \<open>
  Claim C7.  The click handler of the form rejects an empty name or symbol without touching
  the state (\<open>createClick_rejects_empty\<close>), and \<^verbatim>\<open>Math.max\<close> clamps every value that is
  not NaN (\<open>createClick_clamps\<close>).  The claim that the stored \<^verbatim>\<open>fixedCentsPerPoint\<close> is at
  least 1 whatever number is supplied does not hold: \<^verbatim>\<open>Math.max(1, NaN)\<close> is NaN, the
  program is created with NaN cents per point, and \<open>NaN \<ge> 1\<close> is false.
\<close>

theorem createClick_stores_NaN:
  "fst (createClick draw1 nan_form initial) = None
   \<and> map fixedCentsPerPoint (programs (snd (snd (createClick draw1 nan_form initial))))
       = [NaN, Num 100, Num 100, Num 100]
   \<and> \<not> js_le (Num 1) NaN"
  by (simp add: eval_defs)

text \<open>
  Claim C8, as stated: the id of a new program differs from the id of every program already
  listed.  The id is \<^verbatim>\<open>p\<close> and five characters of a random string, and nothing compares
  it with the ids in use: two draws that agree on these characters give two programs with
  the same id.
\<close>

theorem create_id_collision:
  "map id' (programs (snd (snd (createClick draw1 acme initial)))) = [''pk3f9x'', ''p1'', ''p2'', ''p3'']
   \<and> fst (createClick draw2 acme (snd (snd (createClick draw1 acme initial)))) = None
   \<and> map id' (programs (snd (snd (createClick draw2 acme (snd (snd (createClick draw1 acme initial)))))))
       = [''pk3f9x'', ''pk3f9x'', ''p1'', ''p2'', ''p3'']"
  by (simp add: eval_defs)

text \<open>
  Claim C8, as amended.  A successful create gives the new program the id \<^verbatim>\<open>p\<close> followed
  by the five characters after the first two of \<^verbatim>\<open>Math.random().toString(36)\<close>, puts
  it in front of the list, the listed programs keeping their order, selects that id, and the
  next render has the new program as the active one; the ids of the list stay pairwise
  distinct when they were and the drawn id was not in use.  Wallet, purchase amount,
  balances and ledger are untouched.
\<close>

theorem createClick_prepends_and_selects:
  assumes "nm \<noteq> []" and "symbol \<noteq> []"
    and "s' = snd (snd (createClick rnd (nm, symbol, value, earn, breakage) s))"
    and "new = \<lparr>name = nm, tokenSymbol = symbol, fixedCentsPerPoint = math_max [Num 1, value],
                 earnRatePct = math_max [Num 0, earn], breakagePct = math_max [Num 0, breakage],
                 id' = ''p'' @ take 5 (drop 2 rnd)\<rparr>"
  shows "fst (createClick rnd (nm, symbol, value, earn, breakage) s) = None
       \<and> programs s' = new # programs s
       \<and> selected s' = id' new
       \<and> map_sum id activeProgram (render s') = Inr new
       \<and> (id' new \<notin> set (map id' (programs s)) \<and> distinct (map id' (programs s))
            \<longrightarrow> distinct (map id' (programs s')))
       \<and> wallet s' = wallet s \<and> purchaseUsd s' = purchaseUsd s
       \<and> balances s' = balances s \<and> ledger s' = ledger s"
  using assms by (simp add: createClick_def addProgram_def render_def Let_def)

theorem createClick_prepends_and_selects_witness:
  "''Acme Rewards'' \<noteq> [] \<and> ''ACME'' \<noteq> []
   \<and> map id' (programs (snd (snd (createClick draw1 acme initial)))) = [''pk3f9x'', ''p1'', ''p2'', ''p3'']
   \<and> selected (snd (snd (createClick draw1 acme initial))) = ''pk3f9x''
   \<and> ''pk3f9x'' \<notin> set (map id' (programs initial)) \<and> distinct (map id' (programs initial))
   \<and> distinct (map id' (programs (snd (snd (createClick draw1 acme initial)))))"
proof -
  have n: "''Acme Rewards'' \<noteq> []" and y: "''ACME'' \<noteq> []" by simp_all
  have a: "acme = (''Acme Rewards'', ''ACME'', Num 50, Num 2, Num 10)" by (simp add: acme_def)
  have d: "''pk3f9x'' \<notin> set (map id' (programs initial))" "distinct (map id' (programs initial))"
    by (simp_all add: initial_def DEMO_PROGRAMS_def)
  show ?thesis
    using createClick_prepends_and_selects [OF n y refl refl, of draw1 "Num 50" "Num 2" "Num 10" initial] d
    by (simp add: a draw1_def initial_def DEMO_PROGRAMS_def)
qed

section \<open>Referential integrity\<close>

text \<open>
  Claim C10.  In every state reached from the initial page by a sequence of actions
  (connecting and disconnecting the wallet, selecting a listed program, changing the purchase
  amount, issuing, redeeming, creating a program, resetting), the selected id is the id of a
  listed program and so is the program id of every ledger row: neither
  \<^verbatim>\<open>programs.find(...)!\<close> of the component is ever \<^verbatim>\<open>undefined\<close>.
\<close>

theorem reachable_references_resolve:
  assumes "run fmt initial evs = Some s"
  shows "selected s \<in> set (map id' (programs s))
       \<and> (\<forall>r \<in> set (ledger s). programId r \<in> set (map id' (programs s)))
       \<and> render s \<noteq> Inl TypeError
       \<and> (\<forall>r \<in> set (ledger s). List.find (\<lambda>x. id' x = programId r) (programs s) \<noteq> None)"
proof -
  have ok: "ref_ok s" using run_ref_ok [OF ref_ok_initial assms] .
  then have sel: "selected s \<in> set (map id' (programs s))"
    and led: "\<forall>r \<in> set (ledger s). programId r \<in> set (map id' (programs s))"
    by (simp_all add: ref_ok_def list_all_iff)
  from render_ok [OF sel] have "render s \<noteq> Inl TypeError" by auto
  moreover have "\<forall>r \<in> set (ledger s). List.find (\<lambda>x. id' x = programId r) (programs s) \<noteq> None"
    using led find_Some_ex by fastforce
  ultimately show ?thesis using sel led by blast
qed

lemma demo_run:
  "map_option (\<lambda>s. (selected s, map id' (programs s), map programId (ledger s), balances s ''p1''))
     (run usd initial demo_events)
   = Some (''p1'', [''pk3f9x'', ''p1'', ''p2'', ''p3''], [''p1'', ''p1''], Some (Num 4))"
  by (simp add: demo_events_def eval_defs scen1 scen2 scen3 scen4 scen7)

theorem reachable_references_resolve_witness:
  "run usd initial demo_events \<noteq> None
   \<and> selected (the (run usd initial demo_events))
       \<in> set (map id' (programs (the (run usd initial demo_events))))
   \<and> map programId (ledger (the (run usd initial demo_events))) = [''p1'', ''p1'']
   \<and> map id' (programs (the (run usd initial demo_events))) = [''pk3f9x'', ''p1'', ''p2'', ''p3'']
   \<and> render (the (run usd initial demo_events)) \<noteq> Inl TypeError"
proof -
  from demo_run obtain s where s: "run usd initial demo_events = Some s"
    and f: "selected s = ''p1''" "map id' (programs s) = [''pk3f9x'', ''p1'', ''p2'', ''p3'']"
      "map programId (ledger s) = [''p1'', ''p1'']"
    by (cases "run usd initial demo_events") auto
  show ?thesis
    using reachable_references_resolve [OF s] f by (simp add: s)
qed

section \<open>Earning, then redeeming what was earned\<close>

text \<open>
  Claim C4, as stated: the redemption value of the earned points differs from the earned
  value by at most the value of half a hundredth of a point, \<open>0.005 * (cents / 100)\<close>
  dollars.  With the first seed program (100 cents a point, 5 percent) and a purchase of
  0.3 the earned value is the double 0.015, the earned points are the double 0.02, and their
  redemption value 0.02 is more than 0.005 above 0.015, as rationals and in the arithmetic
  of the page (\<^verbatim>\<open>0.02 - 0.015 > 0.005\<close>).
\<close>

theorem redeemed_value_exceeds_half_hundredth:
  "render thirty_cents = Inr thirty_view
   \<and> fixedCentsPerPoint (activeProgram thirty_view) = Num 100
   \<and> \<not> \<bar>val (js_div (earnPts thirty_view) (ptsPerDollar thirty_view))
           - val (earnValueUsd thirty_view)\<bar> \<le> 1 / 200 * (100 / 100)
   \<and> js_gt (js_sub (js_div (earnPts thirty_view) (ptsPerDollar thirty_view))
        (earnValueUsd thirty_view)) (Fnum (5 / 1000))"
  using render_thirty thirty4
  by (simp add: thirty_view_def thirty3 DEMO_PROGRAMS_def)

text \<open>
  Claim C4, as amended.  For a program of \<open>C\<close> cents a point, \<open>C\<close> any finite double that
  is at least 1 (what the form stores unless it stores NaN), and any purchase: whenever the
  redemption value of the earned points, \<^verbatim>\<open>earnPts / ptsPerDollar\<close>, is a finite Number
  (no step overflowed to an infinity and none gave NaN), the earned value \<open>V\<close> is finite
  too (0 and -0 included) and the redemption value differs from it by at most
  \<open>0.005 * (C / 100) * (1 + 2\<^sup>-\<^sup>5\<^sup>1) + \<bar>V\<bar> * 2\<^sup>-\<^sup>5\<^sup>0\<close>: the value of half a hundredth of a
  point, enlarged by the rounding of the five divisions and multiplications of doubles on
  the way.  The redemption value is finite at least for every \<open>C \<le> 2\<^sup>2\<^sup>0\<close> and every
  earned value that is 0 or of magnitude between \<open>2\<^sup>-\<^sup>5\<^sup>0\<^sup>0\<close> and \<open>2\<^sup>5\<^sup>0\<^sup>0\<close>.
\<close>

theorem redeemed_value_close:
  assumes "render s = Inr v"
    and "fixedCentsPerPoint (activeProgram v) = Num C" and "1 \<le> C" and "C < 2 ^ 1024"
  shows "(is_fin (js_div (earnPts v) (ptsPerDollar v))
          \<longrightarrow> is_fin (earnValueUsd v)
            \<and> \<bar>val (js_div (earnPts v) (ptsPerDollar v)) - val (earnValueUsd v)\<bar>
                \<le> 1 / 200 * (C / 100) * (1 + 1 / 2 ^ 51) + \<bar>val (earnValueUsd v)\<bar> / 2 ^ 50)
       \<and> (\<forall>V. C \<le> 2 ^ 20 \<and> earnValueUsd v = Num V
              \<and> (V = 0 \<or> (1 / 2 ^ 500 \<le> \<bar>V\<bar> \<and> \<bar>V\<bar> \<le> 2 ^ 500))
            \<longrightarrow> is_fin (js_div (earnPts v) (ptsPerDollar v)))"
proof -
  note r = render_Inr [OF assms(1)]
  have p: "ptsPerDollar v = js_div (Num 100) (Num C)" using r(4) assms(2) by simp
  have e: "earnPts v = js_div (math_round (js_mul (js_mul (earnValueUsd v) (ptsPerDollar v))
      (Num 100))) (Num 100)"
    using r(5) by simp
  have a: "is_fin (earnValueUsd v)
            \<and> \<bar>val (js_div (earnPts v) (ptsPerDollar v)) - val (earnValueUsd v)\<bar>
                \<le> 1 / 200 * (C / 100) * (1 + 1 / 2 ^ 51) + \<bar>val (earnValueUsd v)\<bar> / 2 ^ 50"
    if "is_fin (js_div (earnPts v) (ptsPerDollar v))"
    using assms(3,4) p e that by (rule round_trip_finite)
  have b: "is_fin (js_div (earnPts v) (ptsPerDollar v))"
    if h: "C \<le> 2 ^ 20 \<and> earnValueUsd v = Num V
        \<and> (V = 0 \<or> (1 / 2 ^ 500 \<le> \<bar>V\<bar> \<and> \<bar>V\<bar> \<le> 2 ^ 500))" for V
  proof -
    have e': "earnPts v = js_div (math_round (js_mul (js_mul (Num V) (ptsPerDollar v))
        (Num 100))) (Num 100)"
      using e h by simp
    from h have c: "C \<le> 2 ^ 20" and m: "V = 0 \<or> (1 / 2 ^ 500 \<le> \<bar>V\<bar> \<and> \<bar>V\<bar> \<le> 2 ^ 500)"
      by simp_all
    from round_trip_numbers [OF assms(3) c m p e'] show ?thesis by simp
  qed
  from a b show ?thesis by blast
qed

theorem redeemed_value_close_witness:
  "render thirty_cents = Inr thirty_view
   \<and> fixedCentsPerPoint (activeProgram thirty_view) = Num 100
   \<and> (1::rat) \<le> 100 \<and> (100::rat) < 2 ^ 1024
   \<and> is_fin (js_div (earnPts thirty_view) (ptsPerDollar thirty_view))
   \<and> is_fin (earnValueUsd thirty_view)
   \<and> \<bar>val (js_div (earnPts thirty_view) (ptsPerDollar thirty_view))
        - val (earnValueUsd thirty_view)\<bar>
       \<le> 1 / 200 * (100 / 100) * (1 + 1 / 2 ^ 51) + \<bar>val (earnValueUsd thirty_view)\<bar> / 2 ^ 50"
proof -
  have c: "fixedCentsPerPoint (activeProgram thirty_view) = Num 100"
    by (simp add: thirty_view_def DEMO_PROGRAMS_def)
  have b: "(1::rat) \<le> 100" "(100::rat) < 2 ^ 1024" by simp_all
  have f: "is_fin (js_div (earnPts thirty_view) (ptsPerDollar thirty_view))"
    by (simp add: thirty_view_def thirty3)
  show ?thesis
    using redeemed_value_close [OF render_thirty c b] render_thirty c b f by blast
qed

section \<open>Reset\<close>

text \<open>
  Claim C9.  From every state, \<^verbatim>\<open>resetAll\<close> leaves exactly the three seed programs
  (Gotham Sports Rewards, Street Child Impact Cash, Kraken Club Cashback, in that order),
  selects the first of them, and empties the balances and the ledger.
\<close>

theorem resetAll_restores_seed:
  "programs (resetAll s) = DEMO_PROGRAMS
   \<and> map name (programs (resetAll s))
       = [''Gotham Sports Rewards'', ''Street Child Impact Cash'', ''Kraken Club Cashback'']
   \<and> selected (resetAll s) = id' (hd (programs (resetAll s)))
   \<and> selected (resetAll s) = ''p1''
   \<and> balances (resetAll s) = Map.empty
   \<and> ledger (resetAll s) = []"
  by (simp add: resetAll_def DEMO_PROGRAMS_def)

end
